theory Spec2Isabelle
  imports Complex_Main
begin

section \<open>Arrays, errors and the random generator\<close>

text \<open>
  The program is \<^verbatim>\<open>grafo_coherencia.py\<close>. Its data are numpy arrays of float64 and
  networkx graphs. A float64 is modelled as a \<^typ>\<open>real\<close>: sums, halves and comparisons
  are exact, there is no NaN and no rounding. The exception is the sweep of thresholds,
  whose samples are compared with the entries of the matrix: there the rounding to a
  double is explicit. A two-dimensional array is the list of its rows. The properties below are stated for square arrays, the only shape the program
  builds; arrays of other shapes (which numpy would broadcast or refuse) are outside the
  model except where a function checks the shape itself.
\<close>

type_synonym matrix = "real list list"

datatype error = ValueError | ZeroDivisionError | NetworkXError | LinAlgError | IndexError

definition mat_of :: "nat \<Rightarrow> (nat \<Rightarrow> nat \<Rightarrow> real) \<Rightarrow> matrix" where
  "mat_of n f = map (\<lambda>i. map (\<lambda>j. f i j) [0..<n]) [0..<n]"

definition square_mat :: "nat \<Rightarrow> matrix \<Rightarrow> bool" where
  "square_mat n M \<longleftrightarrow> length M = n \<and> (\<forall>r \<in> set M. length r = n)"

text \<open>\<^verbatim>\<open>M.T\<close> of an n x n array.\<close>

definition mat_T :: "matrix \<Rightarrow> matrix" where
  "mat_T M = mat_of (length M) (\<lambda>i j. M ! j ! i)"

text \<open>\<^verbatim>\<open>A + B\<close> and \<^verbatim>\<open>A / 2\<close>, entry by entry.\<close>

definition mat_add :: "matrix \<Rightarrow> matrix \<Rightarrow> matrix" where
  "mat_add A B = map2 (map2 (+)) A B"

definition mat_half :: "matrix \<Rightarrow> matrix" where
  "mat_half A = map (map (\<lambda>x. x / 2)) A"

text \<open>\<^verbatim>\<open>np.fill_diagonal(M, v)\<close>: entry (i, i) of every row that has one.\<close>

definition fill_diagonal :: "matrix \<Rightarrow> real \<Rightarrow> matrix" where
  "fill_diagonal M v = map2 (\<lambda>i r. r[i := v]) [0..<length M] M"

text \<open>\<^verbatim>\<open>np.clip(M, lo, hi)\<close> is \<^verbatim>\<open>minimum(hi, maximum(M, lo))\<close>.\<close>

definition clip :: "matrix \<Rightarrow> real \<Rightarrow> real \<Rightarrow> matrix" where
  "clip M lo hi = map (map (\<lambda>x. min hi (max lo x))) M"

text \<open>
  The invariant of a coherence matrix: an n x n array that is symmetric, has ones on the
  diagonal and every entry in [0, 1].
\<close>

definition coherence_matrix :: "nat \<Rightarrow> matrix \<Rightarrow> bool" where
  "coherence_matrix n M \<longleftrightarrow>
     square_mat n M \<and>
     (\<forall>i \<in> {0..<n}. \<forall>j \<in> {0..<n}. M ! i ! j = M ! j ! i) \<and>
     (\<forall>i \<in> {0..<n}. M ! i ! i = 1) \<and>
     (\<forall>i \<in> {0..<n}. \<forall>j \<in> {0..<n}. 0 \<le> M ! i ! j \<and> M ! i ! j \<le> 1)"

text \<open>
  \<^verbatim>\<open>np.random.default_rng(seed)\<close> is a generator: a stream of draws and the position
  of the next one. The streams themselves (the uniform draws of \<^verbatim>\<open>random\<close>, the standard
  normal draws behind \<^verbatim>\<open>normal\<close>) belong to numpy and are parameters of the model.
  \<^verbatim>\<open>default_rng\<close> refuses a negative seed with a ValueError. An array of shape (n, n)
  is filled row by row from the stream.
\<close>

definition rng_random :: "(nat \<Rightarrow> real) \<Rightarrow> nat \<Rightarrow> nat \<Rightarrow> matrix \<times> nat" where
  "rng_random stream pos n = (mat_of n (\<lambda>i j. stream (pos + i * n + j)), pos + n * n)"

definition rng_normal :: "(nat \<Rightarrow> real) \<Rightarrow> nat \<Rightarrow> real \<Rightarrow> real \<Rightarrow> nat \<Rightarrow> matrix \<times> nat" where
  "rng_normal stream pos loc scale n =
     (mat_of n (\<lambda>i j. loc + scale * stream (pos + i * n + j)), pos + n * n)"

section \<open>Matrix construction\<close>

text \<open>
  \<^verbatim>\<open>
  def create_coherence_matrix(n, seed=42):
      rng = np.random.default_rng(seed)
      M = rng.random((n, n))
      M = (M + M.T) / 2
      np.fill_diagonal(M, 1.0)
      return M
  \<close>
  \<^verbatim>\<open>rng.random\<close> refuses a negative dimension with a ValueError.
\<close>

definition create_coherence_matrix :: "(int \<Rightarrow> nat \<Rightarrow> real) \<Rightarrow> int \<Rightarrow> int \<Rightarrow> error + matrix" where
  "create_coherence_matrix uniform n seed =
     (if seed < 0 then Inl ValueError
      else if n < 0 then Inl ValueError
      else
        let (M, pos) = rng_random (uniform seed) 0 (nat n);
            M = mat_half (mat_add M (mat_T M));
            M = fill_diagonal M 1
        in Inr M)"

section \<open>Graphs\<close>

text \<open>
  A networkx \<^verbatim>\<open>Graph\<close> keeps its nodes in insertion order and, for every edge, the
  weight under both orientations of the pair (\<^verbatim>\<open>G._adj[u][v]\<close> and \<^verbatim>\<open>G._adj[v][u]\<close>
  are one attribute dictionary). networkx is not part of the repository: the functions of
  this section follow its implementation of \<^verbatim>\<open>from_numpy_array\<close>, \<^verbatim>\<open>add_edges_from\<close>,
  \<^verbatim>\<open>number_of_edges\<close>, \<^verbatim>\<open>subgraph\<close>, \<^verbatim>\<open>connected_components\<close> and
  \<^verbatim>\<open>laplacian_matrix\<close>.
\<close>

record graph =
  nodes :: "nat list"
  adj :: "nat \<times> nat \<Rightarrow> real option"

definition number_of_nodes :: "graph \<Rightarrow> nat" where
  "number_of_nodes G = length (nodes G)"

definition has_edge :: "graph \<Rightarrow> nat \<Rightarrow> nat \<Rightarrow> bool" where
  "has_edge G u v \<longleftrightarrow> adj G (u, v) \<noteq> None"

text \<open>The edges, each unordered pair once.\<close>

definition edges :: "graph \<Rightarrow> (nat \<times> nat) list" where
  "edges G = filter (\<lambda>(u, v). u \<le> v \<and> has_edge G u v) (List.product (nodes G) (nodes G))"

definition number_of_edges :: "graph \<Rightarrow> nat" where
  "number_of_edges G = length (edges G)"

definition add_edge :: "nat \<Rightarrow> nat \<Rightarrow> real \<Rightarrow> (nat \<times> nat \<Rightarrow> real option) \<Rightarrow> (nat \<times> nat \<Rightarrow> real option)" where
  "add_edge u v w a = a((u, v) \<mapsto> w, (v, u) \<mapsto> w)"

text \<open>
  \<^verbatim>\<open>nx.from_numpy_array(A)\<close> refuses an array that is not square, adds the nodes
  \<^verbatim>\<open>range(n)\<close> and then one edge for every non-zero entry, in the row-major order of
  \<^verbatim>\<open>A.nonzero()\<close>, with the entry as weight; adding an edge that exists overwrites
  its weight.
\<close>

definition nonzero :: "matrix \<Rightarrow> (nat \<times> nat) list" where
  "nonzero A = filter (\<lambda>(i, j). A ! i ! j \<noteq> 0) (List.product [0..<length A] [0..<length A])"

definition from_numpy_array :: "matrix \<Rightarrow> error + graph" where
  "from_numpy_array A =
     (if \<not> square_mat (length A) A then Inl NetworkXError
      else Inr \<lparr>nodes = [0..<length A],
                adj = fold (\<lambda>(i, j). add_edge i j (A ! i ! j)) (nonzero A) Map.empty\<rparr>)"

text \<open>\<^verbatim>\<open>G.subgraph(ns).copy()\<close>: the nodes of \<open>ns\<close> and the edges between them.\<close>

definition subgraph :: "graph \<Rightarrow> nat list \<Rightarrow> graph" where
  "subgraph G ns =
     \<lparr>nodes = filter (\<lambda>v. v \<in> set ns) (nodes G),
      adj = (\<lambda>(u, v). if u \<in> set ns \<and> v \<in> set ns then adj G (u, v) else None)\<rparr>"

text \<open>
  \<^verbatim>\<open>nx.connected_components(G)\<close> yields the classes of the nodes under "joined by a
  path", the class of the earliest node first. The model computes them by merging labels:
  every node starts with itself as label, and every edge gives the label of one end to all
  nodes that carry the label of the other.
\<close>

definition merge_labels :: "nat \<Rightarrow> nat \<Rightarrow> (nat \<Rightarrow> nat) \<Rightarrow> (nat \<Rightarrow> nat)" where
  "merge_labels u v lab = (\<lambda>x. if lab x = lab v then lab u else lab x)"

definition labels :: "graph \<Rightarrow> nat \<Rightarrow> nat" where
  "labels G = fold (\<lambda>(u, v). merge_labels u v) (edges G) id"

definition first_seen :: "nat list \<Rightarrow> nat list" where
  "first_seen xs = rev (remdups (rev xs))"

definition connected_components :: "graph \<Rightarrow> nat list list" where
  "connected_components G =
     map (\<lambda>l. filter (\<lambda>v. labels G v = l) (nodes G)) (first_seen (map (labels G) (nodes G)))"

text \<open>\<^verbatim>\<open>max(len(c) for c in components) if components else 0\<close>\<close>

definition giant_size :: "nat list list \<Rightarrow> nat" where
  "giant_size cs = (if cs = [] then 0 else Max (set (map length cs)))"

text \<open>\<^verbatim>\<open>max(components, key=len)\<close>: the first of the longest; a ValueError when there is none.\<close>

definition max_by_len :: "nat list list \<Rightarrow> error + nat list" where
  "max_by_len cs =
     (case filter (\<lambda>c. length c = giant_size cs) cs of [] \<Rightarrow> Inl ValueError | c # _ \<Rightarrow> Inr c)"

text \<open>
  \<^verbatim>\<open>nx.laplacian_matrix(G, weight='weight').toarray()\<close>: with the nodes in their order,
  \<open>A\<close> the array of the weights (0 where there is no edge), the Laplacian is \<open>D - A\<close>
  where \<open>D\<close> is diagonal and holds the row sums of \<open>A\<close>.
\<close>

definition adjacency_matrix :: "graph \<Rightarrow> matrix" where
  "adjacency_matrix G =
     mat_of (length (nodes G))
       (\<lambda>i j. case adj G (nodes G ! i, nodes G ! j) of None \<Rightarrow> 0 | Some w \<Rightarrow> w)"

definition laplacian_matrix :: "graph \<Rightarrow> matrix" where
  "laplacian_matrix G =
     (let A = adjacency_matrix G
      in mat_of (length (nodes G)) (\<lambda>i j. (if i = j then sum_list (A ! i) else 0) - A ! i ! j))"

section \<open>Graph construction\<close>

text \<open>
  \<^verbatim>\<open>
  def build_graph(M, epsilon):
      M_eff = M.copy()
      M_eff[M_eff < epsilon] = 0
      np.fill_diagonal(M_eff, 0)  # no self-loops in the graph
      G = nx.from_numpy_array(M_eff)
      return G
  \<close>
\<close>

definition zero_below :: "real \<Rightarrow> matrix \<Rightarrow> matrix" where
  "zero_below epsilon M = map (map (\<lambda>x. if x < epsilon then 0 else x)) M"

definition build_graph :: "matrix \<Rightarrow> real \<Rightarrow> error + graph" where
  "build_graph M epsilon =
     (let M_eff = M;
          M_eff = zero_below epsilon M_eff;
          M_eff = fill_diagonal M_eff 0
      in from_numpy_array M_eff)"

text \<open>
  The array handed to \<^verbatim>\<open>from_numpy_array\<close>, the graph made from it when \<open>M\<close> is
  square, and the entries that survive: entry (i, j) is kept when it is not below the
  threshold and is not zero.
\<close>

definition M_eff :: "matrix \<Rightarrow> real \<Rightarrow> matrix" where
  "M_eff M eps = fill_diagonal (zero_below eps M) 0"

definition effective_graph :: "matrix \<Rightarrow> real \<Rightarrow> graph" where
  "effective_graph M eps =
     \<lparr>nodes = [0..<length M],
      adj = fold (\<lambda>(i, j). add_edge i j (M_eff M eps ! i ! j)) (nonzero (M_eff M eps)) Map.empty\<rparr>"

definition kept :: "matrix \<Rightarrow> real \<Rightarrow> nat \<Rightarrow> nat \<Rightarrow> bool" where
  "kept M eps i j \<longleftrightarrow> eps \<le> M ! i ! j \<and> M ! i ! j \<noteq> 0"

definition symmetric_mat :: "nat \<Rightarrow> matrix \<Rightarrow> bool" where
  "symmetric_mat n M \<longleftrightarrow> (\<forall>i \<in> {0..<n}. \<forall>j \<in> {0..<n}. M ! i ! j = M ! j ! i)"

section \<open>Laplacian spectrum\<close>

text \<open>
  \<^verbatim>\<open>
  def compute_laplacian(G):
      n = G.number_of_nodes()
      if n == 0:
          return {'eigenvalues': np.array([]), 'fiedler': 0, 'n_zeros': 0}
      L = nx.laplacian_matrix(G, weight='weight').toarray().astype(float)
      eigenvalues = np.sort(np.linalg.eigvalsh(L))
      n_zeros = np.sum(np.abs(eigenvalues) < 1e-8)
      fiedler = eigenvalues[1] if n > 1 else 0
      return {'eigenvalues': eigenvalues, 'fiedler': fiedler,
              'n_zeros': int(n_zeros), 'laplacian': L}
  \<close>
  The eigenvalue solver \<^verbatim>\<open>np.linalg.eigvalsh\<close> is LAPACK's; it is a parameter of the
  model, \<open>None\<close> standing for its \<^verbatim>\<open>LinAlgError\<close>.
\<close>

record spectrum =
  eigenvalues :: "real list"
  fiedler :: real
  n_zeros :: nat
  laplacian :: "matrix option"

definition compute_laplacian :: "(matrix \<Rightarrow> real list option) \<Rightarrow> graph \<Rightarrow> error + spectrum" where
  "compute_laplacian eigvalsh G =
     (let n = number_of_nodes G in
      if n = 0 then Inr \<lparr>eigenvalues = [], fiedler = 0, n_zeros = 0, laplacian = None\<rparr>
      else
        let L = laplacian_matrix G in
        case eigvalsh L of
          None \<Rightarrow> Inl LinAlgError
        | Some es \<Rightarrow>
            let eigenvalues = sort es;
                n_zeros = length (filter (\<lambda>x. \<bar>x\<bar> < 1 / 10 ^ 8) eigenvalues)
            in if n > 1 then
                 (if 1 < length eigenvalues
                  then Inr \<lparr>eigenvalues = eigenvalues, fiedler = eigenvalues ! 1,
                            n_zeros = n_zeros, laplacian = Some L\<rparr>
                  else Inl IndexError)
               else Inr \<lparr>eigenvalues = eigenvalues, fiedler = 0,
                         n_zeros = n_zeros, laplacian = Some L\<rparr>)"

text \<open>
  A vector \<open>v\<close> is an eigenvector of \<open>L\<close> for \<open>c\<close>: it is not the zero vector and
  \<open>L v = c v\<close>.
\<close>

definition mat_vec :: "matrix \<Rightarrow> real list \<Rightarrow> real list" where
  "mat_vec L v = map (\<lambda>r. sum_list (map2 (*) r v)) L"

definition eigenpair :: "matrix \<Rightarrow> real \<Rightarrow> real list \<Rightarrow> bool" where
  "eigenpair L c v \<longleftrightarrow>
     length v = length L \<and> (\<exists>x \<in> set v. x \<noteq> 0) \<and> mat_vec L v = map (\<lambda>x. c * x) v"

section \<open>Percolation curve\<close>

text \<open>
  The thresholds of the sweep are double-precision numbers that are compared with the
  entries of the matrix, so the rounding of the sweep's arithmetic is kept: \<open>fl\<close> maps a
  real number to the double that represents it. It is a parameter; what is used of it is
  that it keeps zero, keeps what is already rounded, and is monotone.
\<close>

definition rounding :: "(real \<Rightarrow> real) \<Rightarrow> bool" where
  "rounding fl \<longleftrightarrow> fl 0 = 0 \<and> (\<forall>x. fl (fl x) = fl x) \<and> (\<forall>x y. x \<le> y \<longrightarrow> fl x \<le> fl y)"

text \<open>
  \<^verbatim>\<open>np.linspace(start, stop, num)\<close> refuses a negative \<open>num\<close>. With the divisor
  \<open>num - 1\<close> (\<^verbatim>\<open>div\<close> in numpy) and \<open>delta = stop - start\<close> it takes \<open>y = arange(0, num)\<close>
  and, when the divisor is positive, multiplies \<open>y\<close> by \<open>step = delta / divisor\<close> (when the
  step is zero it divides \<open>y\<close> by the divisor and multiplies by \<open>delta\<close> instead); otherwise
  it multiplies \<open>y\<close> by \<open>delta\<close>. It then adds \<open>start\<close>, and for \<open>num > 1\<close> sets the last
  sample to \<open>stop\<close>. Every operation is rounded.
\<close>

definition linspace :: "(real \<Rightarrow> real) \<Rightarrow> real \<Rightarrow> real \<Rightarrow> int \<Rightarrow> error + real list" where
  "linspace fl start stop num =
     (if num < 0 then Inl ValueError
      else
        let divisor = num - 1;
            delta = fl (stop - start);
            y = map real [0..<nat num];
            y = (if 0 < divisor then
                   let step = fl (delta / real_of_int divisor) in
                   if step = 0 then map (\<lambda>v. fl (fl (v / real_of_int divisor) * delta)) y
                   else map (\<lambda>v. fl (v * step)) y
                 else map (\<lambda>v. fl (v * delta)) y);
            y = map (\<lambda>v. fl (v + start)) y
        in Inr (if 1 < num then y[nat num - 1 := stop] else y))"

text \<open>\<^verbatim>\<open>np.diff\<close>, and \<^verbatim>\<open>np.argmax\<close>: the first index of the greatest value, a ValueError on
  an empty array.\<close>

definition np_diff :: "real list \<Rightarrow> real list" where
  "np_diff xs = map2 (\<lambda>a b. b - a) xs (tl xs)"

definition argmax :: "real list \<Rightarrow> error + nat" where
  "argmax xs =
     (if xs = [] then Inl ValueError
      else Inr (length (takeWhile (\<lambda>x. x \<noteq> Max (set xs)) xs)))"

text \<open>A loop that appends one result per element and stops at the first exception.\<close>

fun collect :: "('a \<Rightarrow> error + 'b) \<Rightarrow> 'a list \<Rightarrow> error + 'b list" where
  "collect f [] = Inr []"
| "collect f (x # xs) =
     (case f x of
        Inl e \<Rightarrow> Inl e
      | Inr y \<Rightarrow> (case collect f xs of Inl e \<Rightarrow> Inl e | Inr ys \<Rightarrow> Inr (y # ys)))"

text \<open>
  \<^verbatim>\<open>
  def percolation_curve(M, n_steps=100):
      epsilons = np.linspace(0.01, 0.99, n_steps)
      n_clusters_list = []; giant_sizes = []; fiedler_values = []
      n = M.shape[0]
      for eps in epsilons:
          G = build_graph(M, eps)
          components = list(nx.connected_components(G))
          n_clusters_list.append(len(components))
          giant = max(len(c) for c in components) if components else 0
          giant_sizes.append(giant / n)
          if G.number_of_nodes() > 1 and G.number_of_edges() > 0:
              try:
                  L = nx.laplacian_matrix(G, weight='weight').toarray().astype(float)
                  eigs = np.sort(np.linalg.eigvalsh(L))
                  fiedler_values.append(eigs[1] if len(eigs) > 1 else 0)
              except Exception:
                  fiedler_values.append(0)
          else:
              fiedler_values.append(0)
      n_arr = np.array(n_clusters_list, dtype=float)
      deriv = np.diff(n_arr)
      eps_c_idx = np.argmax(deriv) + 1
      eps_c = epsilons[eps_c_idx]
      return {'epsilons': epsilons, 'n_clusters': n_clusters_list,
              'giant_sizes': giant_sizes, 'fiedler_values': fiedler_values, 'eps_c': eps_c}
  \<close>
  \<open>percolation_step\<close> is one pass of the loop: the three values it appends. \<open>giant / n\<close>
  divides two Python integers, a ZeroDivisionError when \<open>n = 0\<close>, and gives the double
  of the quotient. The literals \<open>0.01\<close> and \<open>0.99\<close> are the doubles of 1/100 and 99/100.
\<close>

record percolation =
  epsilons :: "real list"
  n_clusters :: "nat list"
  giant_sizes :: "real list"
  fiedler_values :: "real list"
  eps_c :: real

definition fiedler_of :: "(matrix \<Rightarrow> real list option) \<Rightarrow> graph \<Rightarrow> real" where
  "fiedler_of eigvalsh G =
     (if number_of_nodes G > 1 \<and> number_of_edges G > 0 then
        (case eigvalsh (laplacian_matrix G) of
           None \<Rightarrow> 0
         | Some es \<Rightarrow> (let eigs = sort es in if length eigs > 1 then eigs ! 1 else 0))
      else 0)"

definition percolation_step ::
    "(real \<Rightarrow> real) \<Rightarrow> (matrix \<Rightarrow> real list option) \<Rightarrow> matrix \<Rightarrow> real \<Rightarrow>
       error + (nat \<times> real \<times> real)" where
  "percolation_step fl eigvalsh M eps =
     (let n = length M in
      case build_graph M eps of
        Inl e \<Rightarrow> Inl e
      | Inr G \<Rightarrow>
          let components = connected_components G;
              giant = giant_size components
          in if n = 0 then Inl ZeroDivisionError
             else Inr (length components, fl (real giant / real n), fiedler_of eigvalsh G))"

definition percolation_curve ::
    "(real \<Rightarrow> real) \<Rightarrow> (matrix \<Rightarrow> real list option) \<Rightarrow> matrix \<Rightarrow> int \<Rightarrow> error + percolation" where
  "percolation_curve fl eigvalsh M n_steps =
     (case linspace fl (fl (1 / 100)) (fl (99 / 100)) n_steps of
        Inl e \<Rightarrow> Inl e
      | Inr samples \<Rightarrow>
          (case collect (percolation_step fl eigvalsh M) samples of
             Inl e \<Rightarrow> Inl e
           | Inr rows \<Rightarrow>
               let n_clusters_list = map fst rows;
                   n_arr = map real n_clusters_list;
                   deriv = np_diff n_arr
               in case argmax deriv of
                    Inl e \<Rightarrow> Inl e
                  | Inr k \<Rightarrow>
                      let eps_c_idx = k + 1 in
                      if eps_c_idx < length samples then
                        Inr \<lparr>epsilons = samples, n_clusters = n_clusters_list,
                             giant_sizes = map (\<lambda>r. fst (snd r)) rows,
                             fiedler_values = map (\<lambda>r. snd (snd r)) rows,
                             eps_c = samples ! eps_c_idx\<rparr>
                      else Inl IndexError))"

text \<open>
  The samples of \<open>linspace\<close> for two or more samples, and the three values one pass of the
  loop appends when the matrix is square and not empty.
\<close>

definition samples :: "(real \<Rightarrow> real) \<Rightarrow> real \<Rightarrow> real \<Rightarrow> nat \<Rightarrow> real list" where
  "samples fl a b m =
     (let delta = fl (b - a);
          step = fl (delta / real (m - 1))
      in (map (\<lambda>k. fl ((if step = 0 then fl (fl (real k / real (m - 1)) * delta)
                           else fl (real k * step)) + a)) [0..<m])[m - 1 := b])"

definition percolation_row ::
    "(real \<Rightarrow> real) \<Rightarrow> (matrix \<Rightarrow> real list option) \<Rightarrow> matrix \<Rightarrow> real \<Rightarrow> nat \<times> real \<times> real" where
  "percolation_row fl eigvalsh M eps =
     (let G = effective_graph M eps;
          components = connected_components G
      in (length components, fl (real (giant_size components) / real (length M)),
          fiedler_of eigvalsh G))"

section \<open>Dynamic graph\<close>

text \<open>
  \<^verbatim>\<open>
  def simulate_dynamic_graph(M_base, n_steps=30, epsilon=0.5, seed=42):
      rng = np.random.default_rng(seed + 100)
      n = M_base.shape[0]
      snapshots = []; n_components_history = []; events = []
      M_t = M_base.copy()
      prev_components = None
      for t in range(n_steps):
          noise = rng.normal(0, 0.03, (n, n))
          noise = (noise + noise.T) / 2
          np.fill_diagonal(noise, 0)
          drift = rng.normal(0, 0.01, (n, n))
          drift = (drift + drift.T) / 2
          np.fill_diagonal(drift, 0)
          M_t = M_t + noise + drift
          M_t = np.clip(M_t, 0, 1)
          np.fill_diagonal(M_t, 1.0)
          M_t = (M_t + M_t.T) / 2
          G = build_graph(M_t, epsilon)
          components = list(nx.connected_components(G))
          n_comp = len(components)
          n_components_history.append(n_comp)
          if prev_components is not None:
              if n_comp < len(prev_components):
                  events.append((t, 'FUSION', f'{len(prev_components)}->{n_comp}'))
              elif n_comp > len(prev_components):
                  events.append((t, 'FISSION', f'{len(prev_components)}->{n_comp}'))
          prev_components = components
          if t == 0 or t == n_steps // 2 or t == n_steps - 1:
              snapshots.append({'time': t, 'M': M_t.copy(), 'G': G.copy(),
                                'n_components': n_comp})
      return {'snapshots': snapshots, 'n_components_history': n_components_history,
              'events': events, 'n_steps': n_steps}
  \<close>
  \<open>evolve\<close> is the transition of the matrix (the first ten lines of the loop body),
  \<open>sim_step\<close> the whole body, \<open>run_steps\<close> the loop.
\<close>

datatype event_kind = FUSION | FISSION

fun show_nat :: "nat \<Rightarrow> string" where
  "show_nat n =
     (if n < 10 then [char_of (48 + n)] else show_nat (n div 10) @ [char_of (48 + n mod 10)])"

declare show_nat.simps [simp del]

record snapshot =
  time :: nat
  snap_M :: matrix
  snap_G :: graph
  n_components :: nat

record sim_state =
  M_t :: matrix
  rng_pos :: nat
  prev_components :: "nat list list option"
  st_snapshots :: "snapshot list"
  st_history :: "nat list"
  st_events :: "(nat \<times> event_kind \<times> string) list"

record evolution =
  snapshots :: "snapshot list"
  n_components_history :: "nat list"
  events :: "(nat \<times> event_kind \<times> string) list"
  n_steps :: int

definition symmetric_noise :: "(nat \<Rightarrow> real) \<Rightarrow> nat \<Rightarrow> real \<Rightarrow> nat \<Rightarrow> matrix \<times> nat" where
  "symmetric_noise gauss pos scale n =
     (let (noise, pos) = rng_normal gauss pos 0 scale n;
          noise = mat_half (mat_add noise (mat_T noise));
          noise = fill_diagonal noise 0
      in (noise, pos))"

definition evolve :: "(nat \<Rightarrow> real) \<Rightarrow> nat \<Rightarrow> matrix \<times> nat \<Rightarrow> matrix \<times> nat" where
  "evolve gauss n = (\<lambda>(M, pos).
     let (noise, pos) = symmetric_noise gauss pos (3 / 100) n;
         (drift, pos) = symmetric_noise gauss pos (1 / 100) n;
         M = mat_add (mat_add M noise) drift;
         M = clip M 0 1;
         M = fill_diagonal M 1;
         M = mat_half (mat_add M (mat_T M))
     in (M, pos))"

definition detect_events ::
    "nat \<Rightarrow> nat list list option \<Rightarrow> nat \<Rightarrow> (nat \<times> event_kind \<times> string) list" where
  "detect_events t prev n_comp =
     (case prev of
        None \<Rightarrow> []
      | Some pc \<Rightarrow>
          if n_comp < length pc
          then [(t, FUSION, show_nat (length pc) @ ''->'' @ show_nat n_comp)]
          else if n_comp > length pc
          then [(t, FISSION, show_nat (length pc) @ ''->'' @ show_nat n_comp)]
          else [])"

definition sim_step ::
    "(nat \<Rightarrow> real) \<Rightarrow> nat \<Rightarrow> int \<Rightarrow> real \<Rightarrow> nat \<Rightarrow> sim_state \<Rightarrow> error + sim_state" where
  "sim_step gauss n steps epsilon t s =
     (let (M, pos) = evolve gauss n (M_t s, rng_pos s) in
      case build_graph M epsilon of
        Inl e \<Rightarrow> Inl e
      | Inr G \<Rightarrow>
          let components = connected_components G;
              n_comp = length components
          in Inr \<lparr>M_t = M, rng_pos = pos, prev_components = Some components,
                  st_snapshots = st_snapshots s @
                    (if t = 0 \<or> int t = steps div 2 \<or> int t = steps - 1
                     then [\<lparr>time = t, snap_M = M, snap_G = G, n_components = n_comp\<rparr>]
                     else []),
                  st_history = st_history s @ [n_comp],
                  st_events = st_events s @ detect_events t (prev_components s) n_comp\<rparr>)"

fun run_steps :: "(nat \<Rightarrow> sim_state \<Rightarrow> error + sim_state) \<Rightarrow> nat list \<Rightarrow> sim_state \<Rightarrow> error + sim_state" where
  "run_steps f [] s = Inr s"
| "run_steps f (t # ts) s = (case f t s of Inl e \<Rightarrow> Inl e | Inr s' \<Rightarrow> run_steps f ts s')"

definition init_state :: "matrix \<Rightarrow> sim_state" where
  "init_state M_base =
     \<lparr>M_t = M_base, rng_pos = 0, prev_components = None,
      st_snapshots = [], st_history = [], st_events = []\<rparr>"

definition simulate_dynamic_graph ::
    "(int \<Rightarrow> nat \<Rightarrow> real) \<Rightarrow> matrix \<Rightarrow> int \<Rightarrow> real \<Rightarrow> int \<Rightarrow> error + evolution" where
  "simulate_dynamic_graph normal M_base steps epsilon seed =
     (if seed + 100 < 0 then Inl ValueError
      else
        let n = length M_base in
        case run_steps (sim_step (normal (seed + 100)) n steps epsilon) [0..<nat steps]
               (init_state M_base) of
          Inl e \<Rightarrow> Inl e
        | Inr s \<Rightarrow>
            Inr \<lparr>snapshots = st_snapshots s, n_components_history = st_history s,
                 events = st_events s, n_steps = steps\<rparr>)"

text \<open>
  The event log as the description of the evolver states it, from the history of the
  component counts alone: for every step \<open>t\<close> after the first, a FUSION when the count
  is below the previous one, a FISSION when it is above, nothing when they are equal.
\<close>

definition event_between :: "nat \<Rightarrow> nat \<Rightarrow> nat \<Rightarrow> (nat \<times> event_kind \<times> string) list" where
  "event_between t before now =
     (if now < before then [(t, FUSION, show_nat before @ ''->'' @ show_nat now)]
      else if now > before then [(t, FISSION, show_nat before @ ''->'' @ show_nat now)]
      else [])"

definition expected_events :: "nat list \<Rightarrow> (nat \<times> event_kind \<times> string) list" where
  "expected_events hist =
     concat (map (\<lambda>t. event_between t (hist ! (t - 1)) (hist ! t)) [1..<length hist])"

section \<open>Small-world detection\<close>

text \<open>
  \<^verbatim>\<open>
  def check_small_world(G, n_nodes):
      result = {'is_small_world': False, 'sigma': 0}
      if G.number_of_edges() == 0 or G.number_of_nodes() < 4:
          return result
      C_actual = nx.average_clustering(G, weight='weight')
      m = G.number_of_edges()
      n = G.number_of_nodes()
      if n < 2:
          return result
      p = 2.0 * m / (n * (n - 1)) if n > 1 else 0
      C_random = p
      components = list(nx.connected_components(G))
      giant_nodes = max(components, key=len)
      if len(giant_nodes) < 4:
          return result
      G_giant = G.subgraph(giant_nodes).copy()
      try:
          L_actual = nx.average_shortest_path_length(G_giant)
      except nx.NetworkXError:
          return result
      L_random = np.log(len(giant_nodes)) / np.log(max(2, result.get('avg_degree', 2)))
      if L_random == 0:
          L_random = 1
      if C_random > 0 and L_actual > 0:
          gamma_sw = C_actual / C_random
          lambda_sw = L_actual / max(L_random, 0.01)
          sigma = gamma_sw / max(lambda_sw, 0.01)
          result['sigma'] = sigma
          result['is_small_world'] = sigma > 1.0
          result['C_ratio'] = gamma_sw
          result['L_ratio'] = lambda_sw
      else:
          result['sigma'] = 0
      return result
  \<close>
  The result is a dictionary from keys to Booleans and numbers. \<^verbatim>\<open>nx.average_clustering\<close>
  and \<^verbatim>\<open>nx.average_shortest_path_length\<close> are networkx's and are parameters of the
  model; the second may raise.
\<close>

datatype pyval = PyBool bool | PyNum real

definition get_num :: "(string \<Rightarrow> pyval option) \<Rightarrow> string \<Rightarrow> real \<Rightarrow> real" where
  "get_num d k dflt = (case d k of Some (PyNum x) \<Rightarrow> x | Some (PyBool b) \<Rightarrow> of_bool b | None \<Rightarrow> dflt)"

definition check_small_world ::
    "(graph \<Rightarrow> real) \<Rightarrow> (graph \<Rightarrow> error + real) \<Rightarrow> graph \<Rightarrow> int \<Rightarrow> error + (string \<Rightarrow> pyval option)" where
  "check_small_world average_clustering average_shortest_path_length G n_nodes =
     (let result = [''is_small_world'' \<mapsto> PyBool False, ''sigma'' \<mapsto> PyNum 0] in
      if number_of_edges G = 0 \<or> number_of_nodes G < 4 then Inr result
      else
        let C_actual = average_clustering G;
            m = number_of_edges G;
            n = number_of_nodes G
        in if n < 2 then Inr result
           else
             let p = (if n > 1 then 2 * real m / real (n * (n - 1)) else 0);
                 C_random = p;
                 components = connected_components G
             in case max_by_len components of
                  Inl e \<Rightarrow> Inl e
                | Inr giant_nodes \<Rightarrow>
                    if length giant_nodes < 4 then Inr result
                    else
                      let G_giant = subgraph G giant_nodes in
                      case average_shortest_path_length G_giant of
                        Inl NetworkXError \<Rightarrow> Inr result
                      | Inl e \<Rightarrow> Inl e
                      | Inr L_actual \<Rightarrow>
                          let L_random = ln (real (length giant_nodes))
                                           / ln (max 2 (get_num result ''avg_degree'' 2));
                              L_random = (if L_random = 0 then 1 else L_random)
                          in if C_random > 0 \<and> L_actual > 0 then
                               let gamma_sw = C_actual / C_random;
                                   lambda_sw = L_actual / max L_random (1 / 100);
                                   sigma = gamma_sw / max lambda_sw (1 / 100)
                               in Inr (result(''sigma'' \<mapsto> PyNum sigma,
                                              ''is_small_world'' \<mapsto> PyBool (sigma > 1),
                                              ''C_ratio'' \<mapsto> PyNum gamma_sw,
                                              ''L_ratio'' \<mapsto> PyNum lambda_sw))
                             else Inr (result(''sigma'' \<mapsto> PyNum 0)))"

section \<open>Facts about arrays\<close>

lemma length_mat_of [simp]: "length (mat_of n f) = n"
  by (simp add: mat_of_def)

lemma nth_mat_of [simp]: "i < n \<Longrightarrow> j < n \<Longrightarrow> mat_of n f ! i ! j = f i j"
  by (simp add: mat_of_def)

lemma square_mat_of [simp]: "square_mat n (mat_of n f)"
  by (auto simp: square_mat_def mat_of_def)

lemma square_matD:
  assumes "square_mat n M"
  shows "length M = n" and "i < n \<Longrightarrow> length (M ! i) = n"
  using assms by (auto simp: square_mat_def)

lemma square_mat_T [simp]: "square_mat (length M) (mat_T M)"
  by (simp add: mat_T_def)

lemma nth_mat_T: "i < length M \<Longrightarrow> j < length M \<Longrightarrow> mat_T M ! i ! j = M ! j ! i"
  by (simp add: mat_T_def)

lemma square_mat_add:
  assumes "square_mat n A" "square_mat n B"
  shows "square_mat n (mat_add A B)"
  using assms by (fastforce simp: square_mat_def mat_add_def in_set_zip)

lemma nth_mat_add:
  assumes "square_mat n A" "square_mat n B" "i < n" "j < n"
  shows "mat_add A B ! i ! j = A ! i ! j + B ! i ! j"
  using assms by (simp add: square_mat_def mat_add_def)

lemma square_mat_half: "square_mat n A \<Longrightarrow> square_mat n (mat_half A)"
  by (auto simp: square_mat_def mat_half_def)

lemma nth_mat_half:
  assumes "square_mat n A" "i < n" "j < n"
  shows "mat_half A ! i ! j = A ! i ! j / 2"
  using assms by (simp add: square_mat_def mat_half_def)

lemma square_fill_diagonal: "square_mat n M \<Longrightarrow> square_mat n (fill_diagonal M v)"
  by (auto simp: square_mat_def fill_diagonal_def dest!: set_zip_rightD)

lemma nth_fill_diagonal:
  assumes "square_mat n M" "i < n" "j < n"
  shows "fill_diagonal M v ! i ! j = (if i = j then v else M ! i ! j)"
  using assms by (simp add: square_mat_def fill_diagonal_def)

lemma square_clip: "square_mat n M \<Longrightarrow> square_mat n (clip M lo hi)"
  by (auto simp: square_mat_def clip_def)

lemma nth_clip:
  assumes "square_mat n M" "i < n" "j < n"
  shows "clip M lo hi ! i ! j = min hi (max lo (M ! i ! j))"
  using assms by (simp add: square_mat_def clip_def)

section \<open>The constructed matrix\<close>

lemma create_coherence_matrix_entries:
  assumes "0 \<le> seed" "0 \<le> n"
  shows "\<exists>M. create_coherence_matrix uniform n seed = Inr M \<and> square_mat (nat n) M \<and>
           (\<forall>i \<in> {0..<nat n}. \<forall>j \<in> {0..<nat n}.
              M ! i ! j = (if i = j then 1
                 else (uniform seed (i * nat n + j) + uniform seed (j * nat n + i)) / 2))"
proof -
  define R where "R = mat_of (nat n) (\<lambda>i j. uniform seed (0 + i * nat n + j))"
  define S where "S = mat_half (mat_add R (mat_T R))"
  have sqR: "square_mat (nat n) R" and lenR: "length R = nat n"
    by (simp_all add: R_def)
  have sqT: "square_mat (nat n) (mat_T R)"
    using square_mat_T [of R] by (simp add: lenR)
  have sqA: "square_mat (nat n) (mat_add R (mat_T R))"
    by (rule square_mat_add [OF sqR sqT])
  have sqS: "square_mat (nat n) S"
    unfolding S_def by (rule square_mat_half [OF sqA])
  have res: "create_coherence_matrix uniform n seed = Inr (fill_diagonal S 1)"
    using assms by (simp add: create_coherence_matrix_def rng_random_def R_def S_def)
  have ent: "fill_diagonal S 1 ! i ! j = (if i = j then 1
      else (uniform seed (i * nat n + j) + uniform seed (j * nat n + i)) / 2)"
    if "i < nat n" "j < nat n" for i j
  proof -
    have "S ! i ! j = (R ! i ! j + mat_T R ! i ! j) / 2"
      unfolding S_def using that
      by (simp add: nth_mat_half [OF sqA] nth_mat_add [OF sqR sqT])
    also have "\<dots> = (uniform seed (i * nat n + j) + uniform seed (j * nat n + i)) / 2"
      using that by (simp add: nth_mat_T lenR) (simp add: R_def)
    finally show ?thesis
      using that by (simp add: nth_fill_diagonal [OF sqS])
  qed
  show ?thesis
    using res square_fill_diagonal [OF sqS] ent by auto
qed

text \<open>
  C1. Whatever the seed, a matrix returned by \<open>create_coherence_matrix\<close> for
  \<open>n \<ge> 1\<close> is symmetric, has ones on the diagonal and every entry in [0, 1]: off the
  diagonal the entry (i, j) is the mean of the draws (i, j) and (j, i), which are uniform
  draws in [0, 1), and the diagonal is set to 1 afterwards. A matrix is returned for every
  seed the generator accepts (the non-negative ones).
\<close>

theorem create_coherence_matrix_invariant:
  assumes range: "\<forall>k. 0 \<le> uniform seed k \<and> uniform seed k < 1"
    and n: "1 \<le> n"
  shows "(0 \<le> seed \<longrightarrow> (\<exists>M. create_coherence_matrix uniform n seed = Inr M)) \<and>
         (\<forall>M. create_coherence_matrix uniform n seed = Inr M \<longrightarrow>
            coherence_matrix (nat n) M \<and>
            (\<forall>i \<in> {0..<nat n}. \<forall>j \<in> {0..<nat n}. i \<noteq> j \<longrightarrow>
               M ! i ! j = (uniform seed (i * nat n + j) + uniform seed (j * nat n + i)) / 2))"
proof (intro conjI allI impI)
  assume "0 \<le> seed"
  then show "\<exists>M. create_coherence_matrix uniform n seed = Inr M"
    using create_coherence_matrix_entries [of seed n uniform] n by auto
next
  fix M assume ret: "create_coherence_matrix uniform n seed = Inr M"
  then have seed: "0 \<le> seed"
    by (auto simp: create_coherence_matrix_def split: if_splits)
  from create_coherence_matrix_entries [OF seed, of n uniform] n ret
  have sq: "square_mat (nat n) M"
    and ent: "\<And>i j. i < nat n \<Longrightarrow> j < nat n \<Longrightarrow>
      M ! i ! j = (if i = j then 1
         else (uniform seed (i * nat n + j) + uniform seed (j * nat n + i)) / 2)"
    by auto
  have rng: "0 \<le> uniform seed k" "uniform seed k < 1" for k
    using range by auto
  have bounds: "0 \<le> M ! i ! j \<and> M ! i ! j \<le> 1" if "i < nat n" "j < nat n" for i j
    using ent [OF that] rng [of "i * nat n + j"] rng [of "j * nat n + i"]
    by (auto split: if_splits)
  have sym: "M ! i ! j = M ! j ! i" if "i < nat n" "j < nat n" for i j
    using ent [OF that] ent [OF that(2) that(1)] by (auto simp: add.commute)
  show "coherence_matrix (nat n) M"
    unfolding coherence_matrix_def using sq sym bounds ent by auto
  show "\<forall>i \<in> {0..<nat n}. \<forall>j \<in> {0..<nat n}. i \<noteq> j \<longrightarrow>
      M ! i ! j = (uniform seed (i * nat n + j) + uniform seed (j * nat n + i)) / 2"
    using ent by auto
qed

theorem create_coherence_matrix_invariant_witness:
  "create_coherence_matrix (\<lambda>s k. if even k then 1/4 else 3/4) 2 42 = Inr [[1, 1/2], [1/2, 1]] \<and>
   coherence_matrix 2 [[1, 1/2], [1/2, 1]]"
proof -
  let ?U = "\<lambda>(s::int) (k::nat). if even k then 1/4 else 3/4 :: real"
  have ev: "create_coherence_matrix ?U 2 42 = Inr [[1, 1/2], [1/2, 1]]"
    by (simp add: create_coherence_matrix_def rng_random_def mat_of_def mat_half_def
        mat_add_def mat_T_def fill_diagonal_def upt_conv_Cons)
  have rg: "\<forall>k. 0 \<le> ?U 42 k \<and> ?U 42 k < 1" by simp
  from create_coherence_matrix_invariant [OF rg, of 2] ev show ?thesis by simp
qed

section \<open>The induced graph\<close>

lemma add_edge_same: "add_edge i j w a (i, j) = Some w"
  by (simp add: add_edge_def)

lemma add_edge_swap: "add_edge i j w a (j, i) = Some w"
  by (simp add: add_edge_def)

lemma add_edge_other: "p \<noteq> (i, j) \<Longrightarrow> p \<noteq> (j, i) \<Longrightarrow> add_edge i j w a p = a p"
  by (simp add: add_edge_def)

lemma add_edge_apply:
  "add_edge i j w a p = (if p = (i, j) \<or> p = (j, i) then Some w else a p)"
  using add_edge_same add_edge_swap add_edge_other by metis

lemma fold_add_edge_dom:
  "fold (\<lambda>(i, j). add_edge i j (w i j)) xs a p \<noteq> None \<longleftrightarrow>
     a p \<noteq> None \<or> p \<in> set xs \<or> prod.swap p \<in> set xs"
proof (induction xs arbitrary: a)
  case Nil
  show ?case by simp
next
  case (Cons q xs)
  obtain i j where q: "q = (i, j)" by (cases q)
  have sw: "prod.swap p = (i, j) \<longleftrightarrow> p = (j, i)"
    by (cases p) auto
  have "fold (\<lambda>(i, j). add_edge i j (w i j)) (q # xs) a p \<noteq> None \<longleftrightarrow>
      add_edge i j (w i j) a p \<noteq> None \<or> p \<in> set xs \<or> prod.swap p \<in> set xs"
    using Cons.IH [of "add_edge i j (w i j) a"] by (simp add: q)
  also have "\<dots> \<longleftrightarrow> a p \<noteq> None \<or> p \<in> set (q # xs) \<or> prod.swap p \<in> set (q # xs)"
    unfolding add_edge_apply by (auto simp: q sw)
  finally show ?case .
qed

lemma fold_add_edge_val:
  "fold (\<lambda>(i, j). add_edge i j (w i j)) xs a p = Some x \<Longrightarrow>
     a p = Some x \<or> (p \<in> set xs \<and> x = w (fst p) (snd p)) \<or>
     (prod.swap p \<in> set xs \<and> x = w (snd p) (fst p))"
proof (induction xs arbitrary: a)
  case Nil
  then show ?case by simp
next
  case (Cons q xs)
  obtain i j where q: "q = (i, j)" by (cases q)
  have sw: "prod.swap p = (i, j) \<longleftrightarrow> p = (j, i)"
    by (cases p) auto
  from Cons.prems have "fold (\<lambda>(i, j). add_edge i j (w i j)) xs (add_edge i j (w i j) a) p = Some x"
    by (simp add: q)
  from Cons.IH [OF this] have
    "add_edge i j (w i j) a p = Some x \<or> (p \<in> set xs \<and> x = w (fst p) (snd p)) \<or>
     (prod.swap p \<in> set xs \<and> x = w (snd p) (fst p))" .
  moreover have "add_edge i j (w i j) a p = Some x \<Longrightarrow>
     a p = Some x \<or> (p = (i, j) \<and> x = w i j) \<or> (p = (j, i) \<and> x = w i j)"
    unfolding add_edge_apply by (auto split: if_splits)
  ultimately show ?case
    unfolding q using sw by fastforce
qed

lemma set_nonzero:
  "(i, j) \<in> set (nonzero A) \<longleftrightarrow> i < length A \<and> j < length A \<and> A ! i ! j \<noteq> 0"
  by (auto simp: nonzero_def)

lemma square_zero_below: "square_mat n M \<Longrightarrow> square_mat n (zero_below eps M)"
  by (auto simp: square_mat_def zero_below_def)

lemma nth_zero_below:
  assumes "square_mat n M" "i < n" "j < n"
  shows "zero_below eps M ! i ! j = (if M ! i ! j < eps then 0 else M ! i ! j)"
  using assms by (simp add: square_mat_def zero_below_def)

lemma square_M_eff: "square_mat n M \<Longrightarrow> square_mat n (M_eff M eps)"
  by (simp add: M_eff_def square_fill_diagonal square_zero_below)

lemma nth_M_eff:
  assumes "square_mat n M" "i < n" "j < n"
  shows "M_eff M eps ! i ! j = (if i = j \<or> M ! i ! j < eps then 0 else M ! i ! j)"
  using assms
  by (simp add: M_eff_def nth_fill_diagonal [OF square_zero_below] nth_zero_below)

lemma build_graph_eq:
  assumes "square_mat n M"
  shows "build_graph M eps =
    Inr \<lparr>nodes = [0..<n],
         adj = fold (\<lambda>(i, j). add_edge i j (M_eff M eps ! i ! j)) (nonzero (M_eff M eps)) Map.empty\<rparr>"
  using square_M_eff [OF assms, of eps] square_matD(1) [OF square_M_eff [OF assms, of eps]]
  by (simp add: build_graph_def from_numpy_array_def M_eff_def Let_def)

lemma build_graph_has_edge:
  assumes "square_mat n M" "build_graph M eps = Inr G"
  shows "has_edge G i j \<longleftrightarrow> i < n \<and> j < n \<and> i \<noteq> j \<and> (kept M eps i j \<or> kept M eps j i)"
proof -
  have len: "length (M_eff M eps) = n"
    using square_matD(1) [OF square_M_eff [OF assms(1)]] .
  have "has_edge G i j \<longleftrightarrow> (i, j) \<in> set (nonzero (M_eff M eps)) \<or> (j, i) \<in> set (nonzero (M_eff M eps))"
  proof -
    have "adj G = fold (\<lambda>(i, j). add_edge i j (M_eff M eps ! i ! j)) (nonzero (M_eff M eps)) Map.empty"
      using assms(2) unfolding build_graph_eq [OF assms(1)] by auto
    then show ?thesis
      unfolding has_edge_def
      using fold_add_edge_dom [of "\<lambda>i j. M_eff M eps ! i ! j" "nonzero (M_eff M eps)" Map.empty "(i, j)"]
      by simp
  qed
  also have "\<dots> \<longleftrightarrow> i < n \<and> j < n \<and> i \<noteq> j \<and> (kept M eps i j \<or> kept M eps j i)"
    by (auto simp: set_nonzero len nth_M_eff [OF assms(1)] kept_def split: if_splits)
  finally show ?thesis .
qed

lemma build_graph_weight:
  assumes "square_mat n M" "build_graph M eps = Inr G" "adj G (i, j) = Some x"
  shows "(kept M eps i j \<and> x = M ! i ! j) \<or> (kept M eps j i \<and> x = M ! j ! i)"
proof -
  have len: "length (M_eff M eps) = n"
    using square_matD(1) [OF square_M_eff [OF assms(1)]] .
  from assms(2,3) have "((i, j) \<in> set (nonzero (M_eff M eps)) \<and> x = M_eff M eps ! i ! j) \<or>
        ((j, i) \<in> set (nonzero (M_eff M eps)) \<and> x = M_eff M eps ! j ! i)"
    unfolding build_graph_eq [OF assms(1)]
    using fold_add_edge_val [of "\<lambda>i j. M_eff M eps ! i ! j" "nonzero (M_eff M eps)" Map.empty "(i, j)" x]
    by auto
  then show ?thesis
    by (auto simp: set_nonzero len nth_M_eff [OF assms(1)] kept_def split: if_splits)
qed

lemma first_seen_distinct:
  assumes "distinct xs"
  shows "first_seen xs = xs"
  using assms by (simp add: first_seen_def distinct_remdups_id)

lemma length_first_seen: "length (first_seen xs) = card (set xs)"
  by (simp add: first_seen_def length_remdups_card_conv)

lemma filter_eq_upt: "l < n \<Longrightarrow> filter (\<lambda>v. v = l) [0..<n] = [l]"
proof (induction n)
  case 0
  then show ?case by simp
next
  case (Suc n)
  show ?case
  proof (cases "l < n")
    case True
    with Suc.IH show ?thesis by simp
  next
    case False
    with Suc.prems have "l = n" by simp
    moreover have "filter (\<lambda>v. v = n) [0..<n] = []"
      by (simp add: filter_empty_conv)
    ultimately show ?thesis by simp
  qed
qed

lemma components_no_edges:
  assumes "edges G = []" "nodes G = [0..<n]"
  shows "connected_components G = map (\<lambda>v. [v]) [0..<n]"
proof -
  have lab: "labels G = id"
    by (simp add: labels_def assms(1))
  have "connected_components G = map (\<lambda>l. filter (\<lambda>v. v = l) [0..<n]) [0..<n]"
    by (simp add: connected_components_def lab assms(2) first_seen_distinct)
  also have "\<dots> = map (\<lambda>v. [v]) [0..<n]"
    by (rule map_cong) (simp_all add: filter_eq_upt)
  finally show ?thesis .
qed

lemma edges_empty_iff:
  "edges G = [] \<longleftrightarrow> (\<forall>u \<in> set (nodes G). \<forall>v \<in> set (nodes G). u \<le> v \<longrightarrow> \<not> has_edge G u v)"
  by (auto simp: edges_def filter_empty_conv)

text \<open>
  C2 (amended). For an n x n matrix \<open>M\<close> and a threshold \<open>eps\<close>, \<open>build_graph\<close> returns
  a graph on the nodes 0..n-1 in which i and j are joined exactly when they differ and the
  entry (i, j) or the entry (j, i) is at least \<open>eps\<close> and is not zero; a zero entry is
  never an edge. Every weight is such an entry, so it is at least \<open>eps\<close>; for a symmetric
  \<open>M\<close> the weight of the edge (i, j) is \<open>M[i][j]\<close>. There is no self-loop. With
  \<open>eps \<le> 0\<close> and positive entries off the diagonal the graph is complete; when every
  entry off the diagonal is below \<open>eps\<close> there is no edge and every node is a component
  of its own.
\<close>

theorem build_graph_edges:
  assumes sq: "square_mat n M"
  shows "\<exists>G. build_graph M eps = Inr G \<and> nodes G = [0..<n] \<and>
     (\<forall>i j. has_edge G i j \<longleftrightarrow>
        i < n \<and> j < n \<and> i \<noteq> j \<and> (kept M eps i j \<or> kept M eps j i)) \<and>
     (\<forall>i j x. adj G (i, j) = Some x \<longrightarrow>
        eps \<le> x \<and> x \<noteq> 0 \<and> (x = M ! i ! j \<or> x = M ! j ! i)) \<and>
     (\<forall>i. \<not> has_edge G i i) \<and>
     (symmetric_mat n M \<longrightarrow>
        (\<forall>i \<in> {0..<n}. \<forall>j \<in> {0..<n}. i \<noteq> j \<longrightarrow>
           adj G (i, j) = (if eps \<le> M ! i ! j \<and> M ! i ! j \<noteq> 0 then Some (M ! i ! j) else None))) \<and>
     (eps \<le> 0 \<and> (\<forall>i \<in> {0..<n}. \<forall>j \<in> {0..<n}. i \<noteq> j \<longrightarrow> 0 < M ! i ! j) \<longrightarrow>
        (\<forall>i \<in> {0..<n}. \<forall>j \<in> {0..<n}. i \<noteq> j \<longrightarrow> has_edge G i j)) \<and>
     ((\<forall>i \<in> {0..<n}. \<forall>j \<in> {0..<n}. i \<noteq> j \<longrightarrow> M ! i ! j < eps) \<longrightarrow>
        number_of_edges G = 0 \<and> connected_components G = map (\<lambda>v. [v]) [0..<n] \<and>
        length (connected_components G) = n)"
proof -
  obtain G where G: "build_graph M eps = Inr G" and nodes: "nodes G = [0..<n]"
    using build_graph_eq [OF sq, of eps] by simp
  note he = build_graph_has_edge [OF sq G]
  note wt = build_graph_weight [OF sq G]
  have weights: "\<forall>i j x. adj G (i, j) = Some x \<longrightarrow>
        eps \<le> x \<and> x \<noteq> 0 \<and> (x = M ! i ! j \<or> x = M ! j ! i)"
  proof (intro allI impI)
    fix i j x assume "adj G (i, j) = Some x"
    from wt [OF this] show "eps \<le> x \<and> x \<noteq> 0 \<and> (x = M ! i ! j \<or> x = M ! j ! i)"
      unfolding kept_def by auto
  qed
  have noloop: "\<forall>i. \<not> has_edge G i i"
    using he by simp
  have symm: "symmetric_mat n M \<longrightarrow>
        (\<forall>i \<in> {0..<n}. \<forall>j \<in> {0..<n}. i \<noteq> j \<longrightarrow>
           adj G (i, j) = (if eps \<le> M ! i ! j \<and> M ! i ! j \<noteq> 0 then Some (M ! i ! j) else None))"
  proof (intro impI ballI)
    fix i j assume s: "symmetric_mat n M" and i: "i \<in> {0..<n}" and j: "j \<in> {0..<n}" and ne: "i \<noteq> j"
    have eq: "M ! j ! i = M ! i ! j"
      using s i j by (simp add: symmetric_mat_def)
    show "adj G (i, j) = (if eps \<le> M ! i ! j \<and> M ! i ! j \<noteq> 0 then Some (M ! i ! j) else None)"
    proof (cases "adj G (i, j)")
      case None
      then have "\<not> has_edge G i j" by (simp add: has_edge_def)
      then have "\<not> kept M eps i j" using he [of i j] i j ne by simp
      with None show ?thesis by (simp add: kept_def)
    next
      case (Some x)
      from wt [OF Some] have "kept M eps i j \<and> x = M ! i ! j"
        unfolding kept_def eq by blast
      with Some show ?thesis by (simp add: kept_def)
    qed
  qed
  have complete: "eps \<le> 0 \<and> (\<forall>i \<in> {0..<n}. \<forall>j \<in> {0..<n}. i \<noteq> j \<longrightarrow> 0 < M ! i ! j) \<longrightarrow>
        (\<forall>i \<in> {0..<n}. \<forall>j \<in> {0..<n}. i \<noteq> j \<longrightarrow> has_edge G i j)"
  proof (intro impI ballI)
    fix i j
    assume a: "eps \<le> 0 \<and> (\<forall>i \<in> {0..<n}. \<forall>j \<in> {0..<n}. i \<noteq> j \<longrightarrow> 0 < M ! i ! j)"
      and i: "i \<in> {0..<n}" and j: "j \<in> {0..<n}" and ne: "i \<noteq> j"
    from a i j ne have "0 < M ! i ! j" by blast
    with a have "kept M eps i j" by (simp add: kept_def)
    with he [of i j] i j ne show "has_edge G i j" by simp
  qed
  have empty: "(\<forall>i \<in> {0..<n}. \<forall>j \<in> {0..<n}. i \<noteq> j \<longrightarrow> M ! i ! j < eps) \<longrightarrow>
        number_of_edges G = 0 \<and> connected_components G = map (\<lambda>v. [v]) [0..<n] \<and>
        length (connected_components G) = n"
  proof
    assume below: "\<forall>i \<in> {0..<n}. \<forall>j \<in> {0..<n}. i \<noteq> j \<longrightarrow> M ! i ! j < eps"
    have no: "\<not> has_edge G i j" for i j
    proof
      assume e: "has_edge G i j"
      with he [of i j] have ij: "i < n" "j < n" "i \<noteq> j" and k: "kept M eps i j \<or> kept M eps j i"
        by simp_all
      from below ij have "M ! i ! j < eps" "M ! j ! i < eps" by simp_all
      with k show False by (simp add: kept_def)
    qed
    then have e: "edges G = []"
      by (simp add: edges_empty_iff)
    from components_no_edges [OF e nodes] e
    show "number_of_edges G = 0 \<and> connected_components G = map (\<lambda>v. [v]) [0..<n] \<and>
        length (connected_components G) = n"
      by (simp add: number_of_edges_def)
  qed
  have edge: "\<forall>i j. has_edge G i j \<longleftrightarrow>
        i < n \<and> j < n \<and> i \<noteq> j \<and> (kept M eps i j \<or> kept M eps j i)"
    using he by blast
  show ?thesis
    using G nodes edge weights noloop symm complete empty by (intro exI [of _ G] conjI)
qed

theorem build_graph_edges_witness:
  "square_mat 2 [[1, 9/10], [9/10, 1]] \<and>
   \<not> isl (build_graph [[1, 9/10], [9/10, 1]] (1/2)) \<and>
   has_edge (projr (build_graph [[1, 9/10], [9/10, 1]] (1/2))) 0 1 \<and>
   adj (projr (build_graph [[1, 9/10], [9/10, 1]] (1/2))) (0, 1) = Some (9/10) \<and>
   \<not> has_edge (projr (build_graph [[1, 9/10], [9/10, 1]] (1/2))) 0 0"
proof -
  let ?M = "[[1, 9/10], [9/10, 1::real]]"
  have sq: "square_mat 2 ?M"
    by (simp add: square_mat_def)
  have sy: "symmetric_mat 2 ?M"
    by (simp add: symmetric_mat_def atLeastLessThan_iff less_Suc_eq numeral_2_eq_2 Ball_def)
  from build_graph_edges [OF sq, of "1/2"] obtain G where
    G: "build_graph ?M (1/2) = Inr G"
    and he: "\<forall>i j. has_edge G i j \<longleftrightarrow>
        i < 2 \<and> j < 2 \<and> i \<noteq> j \<and> (kept ?M (1/2) i j \<or> kept ?M (1/2) j i)"
    and sm: "symmetric_mat 2 ?M \<longrightarrow>
        (\<forall>i \<in> {0..<2}. \<forall>j \<in> {0..<2}. i \<noteq> j \<longrightarrow>
           adj G (i, j) = (if 1/2 \<le> ?M ! i ! j \<and> ?M ! i ! j \<noteq> 0 then Some (?M ! i ! j) else None))"
    by (elim exE conjE) (rule that, assumption+)
  from he have e01: "has_edge G 0 1"
    by (simp add: kept_def)
  from he have e00: "\<not> has_edge G 0 0"
    by simp
  from sm sy have "\<forall>i \<in> {0..<2}. \<forall>j \<in> {0..<2}. i \<noteq> j \<longrightarrow>
           adj G (i, j) = (if 1/2 \<le> ?M ! i ! j \<and> ?M ! i ! j \<noteq> 0 then Some (?M ! i ! j) else None)"
    by (rule mp)
  then have "adj G (0, 1) = (if 1/2 \<le> ?M ! 0 ! 1 \<and> ?M ! 0 ! 1 \<noteq> 0 then Some (?M ! 0 ! 1) else None)"
    by (simp del: nth_Cons_0)
  then have w01: "adj G (0, 1) = Some (9/10)"
    by simp
  from sq G e01 e00 w01 show ?thesis
    by simp
qed

text \<open>
  The claim as first stated fails on a zero entry: with threshold 0 the entry (0, 1) = 0 is
  not below the threshold, yet the graph has no edge. On a matrix that is not symmetric
  an edge can stand although the entry (0, 1) is below the threshold, because the entry
  (1, 0) is not.
\<close>

theorem build_graph_zero_entry_counterexample:
  "(0::real) \<le> [[1, 0], [0, 1]] ! 0 ! 1 \<and>
   \<not> isl (build_graph [[1, 0], [0, 1]] 0) \<and>
   \<not> has_edge (projr (build_graph [[1, 0], [0, 1]] 0)) 0 1 \<and>
   number_of_edges (projr (build_graph [[1, 0], [0, 1]] 0)) = 0 \<and>
   [[1, 1/5], [4/5, 1]] ! 0 ! 1 < (1/2 :: real) \<and>
   \<not> isl (build_graph [[1, 1/5], [4/5, 1]] (1/2)) \<and>
   has_edge (projr (build_graph [[1, 1/5], [4/5, 1]] (1/2))) 0 1"
  by code_simp

section \<open>Connected components and the threshold\<close>

lemma merge_labels_keeps:
  "lab x = lab y \<Longrightarrow> merge_labels u v lab x = merge_labels u v lab y"
  by (simp add: merge_labels_def)

lemma merge_labels_joins: "merge_labels u v lab u = merge_labels u v lab v"
  by (simp add: merge_labels_def)

lemma merge_labels_finer:
  assumes "L u = L v" and "\<And>x y. lab x = lab y \<Longrightarrow> L x = L y"
    and "merge_labels u v lab x = merge_labels u v lab y"
  shows "L x = L y"
proof (cases "lab x = lab v")
  case xv: True
  show ?thesis
  proof (cases "lab y = lab v")
    case True
    with xv have "lab x = lab y" by simp
    then show ?thesis by (rule assms(2))
  next
    case False
    with xv assms(3) have "lab u = lab y" by (simp add: merge_labels_def)
    then have "L u = L y" by (rule assms(2))
    moreover from xv have "L x = L v" by (rule assms(2))
    ultimately show ?thesis using assms(1) by simp
  qed
next
  case nxv: False
  show ?thesis
  proof (cases "lab y = lab v")
    case True
    with nxv assms(3) have "lab x = lab u" by (simp add: merge_labels_def)
    then have "L x = L u" by (rule assms(2))
    moreover from True have "L y = L v" by (rule assms(2))
    ultimately show ?thesis using assms(1) by simp
  next
    case False
    with nxv assms(3) have "lab x = lab y" by (simp add: merge_labels_def)
    then show ?thesis by (rule assms(2))
  qed
qed

lemma fold_merge_keeps:
  "lab x = lab y \<Longrightarrow>
   fold (\<lambda>(u, v). merge_labels u v) es lab x = fold (\<lambda>(u, v). merge_labels u v) es lab y"
proof (induction es arbitrary: lab)
  case Nil
  then show ?case by simp
next
  case (Cons e es)
  obtain u v where e: "e = (u, v)" by (cases e)
  from Cons.prems have "merge_labels u v lab x = merge_labels u v lab y"
    by (rule merge_labels_keeps)
  from Cons.IH [OF this] show ?case by (simp add: e)
qed

lemma fold_merge_joins:
  "(u, v) \<in> set es \<Longrightarrow>
   fold (\<lambda>(u, v). merge_labels u v) es lab u = fold (\<lambda>(u, v). merge_labels u v) es lab v"
proof (induction es arbitrary: lab)
  case Nil
  then show ?case by simp
next
  case (Cons e es)
  show ?case
  proof (cases "e = (u, v)")
    case True
    have "merge_labels u v lab u = merge_labels u v lab v"
      by (rule merge_labels_joins)
    then have "fold (\<lambda>(u, v). merge_labels u v) es (merge_labels u v lab) u =
        fold (\<lambda>(u, v). merge_labels u v) es (merge_labels u v lab) v"
      by (rule fold_merge_keeps)
    then show ?thesis
      unfolding True by simp
  next
    case False
    obtain a b where e: "e = (a, b)" by (cases e)
    from False Cons.prems have "(u, v) \<in> set es" by auto
    then have "fold (\<lambda>(u, v). merge_labels u v) es (merge_labels a b lab) u =
        fold (\<lambda>(u, v). merge_labels u v) es (merge_labels a b lab) v"
      by (rule Cons.IH [of "merge_labels a b lab"])
    then show ?thesis
      unfolding e by simp
  qed
qed

lemma fold_merge_finest:
  assumes "\<And>u v. (u, v) \<in> set es \<Longrightarrow> L u = L v"
    and "\<And>x y. lab x = lab y \<Longrightarrow> L x = L y"
    and "fold (\<lambda>(u, v). merge_labels u v) es lab x = fold (\<lambda>(u, v). merge_labels u v) es lab y"
  shows "L x = L y"
  using assms
proof (induction es arbitrary: lab)
  case Nil
  from Nil.prems(3) have "lab x = lab y" by simp
  then show ?case by (rule Nil.prems(2))
next
  case (Cons e es)
  obtain a b where e: "e = (a, b)" by (cases e)
  have ab: "L a = L b"
    by (rule Cons.prems(1)) (simp add: e)
  have step: "L x' = L y'" if "merge_labels a b lab x' = merge_labels a b lab y'" for x' y'
    using ab Cons.prems(2) that by (rule merge_labels_finer [of L a b lab x' y'])
  have rest: "L u = L v" if "(u, v) \<in> set es" for u v
    by (rule Cons.prems(1)) (simp add: that)
  have run: "fold (\<lambda>(u, v). merge_labels u v) es (merge_labels a b lab) x =
          fold (\<lambda>(u, v). merge_labels u v) es (merge_labels a b lab) y"
    using Cons.prems(3) unfolding e by simp
  show ?case
    using rest step run by (rule Cons.IH [of "merge_labels a b lab"])
qed

lemma labels_finer:
  assumes "set (edges G2) \<subseteq> set (edges G1)" "labels G2 x = labels G2 y"
  shows "labels G1 x = labels G1 y"
proof (rule fold_merge_finest [of "edges G2" "labels G1" id x y])
  show "\<And>u v. (u, v) \<in> set (edges G2) \<Longrightarrow> labels G1 u = labels G1 v"
    using assms(1) fold_merge_joins [of _ _ "edges G1" id] unfolding labels_def by blast
  show "\<And>x y. id x = id y \<Longrightarrow> labels G1 x = labels G1 y"
    by simp
  show "fold (\<lambda>(u, v). merge_labels u v) (edges G2) id x =
        fold (\<lambda>(u, v). merge_labels u v) (edges G2) id y"
    using assms(2) by (simp add: labels_def)
qed

lemma card_image_finer:
  assumes fin: "finite S" and finer: "\<And>x y. g x = g y \<Longrightarrow> f x = f y"
  shows "card (f ` S) \<le> card (g ` S)"
proof -
  define h where "h c = f (SOME x. x \<in> S \<and> g x = c)" for c
  have "f ` S \<subseteq> h ` (g ` S)"
  proof
    fix a assume "a \<in> f ` S"
    then obtain x where x: "x \<in> S" "a = f x" by auto
    have "\<exists>z. z \<in> S \<and> g z = g x" using x(1) by auto
    then have "(SOME z. z \<in> S \<and> g z = g x) \<in> S \<and> g (SOME z. z \<in> S \<and> g z = g x) = g x"
      by (rule someI_ex)
    then have "g (SOME z. z \<in> S \<and> g z = g x) = g x" ..
    then have "f (SOME z. z \<in> S \<and> g z = g x) = f x"
      by (rule finer)
    then have "h (g x) = a" by (simp add: h_def x(2))
    then show "a \<in> h ` (g ` S)" using x(1) by blast
  qed
  then have "card (f ` S) \<le> card (h ` (g ` S))"
    using fin by (intro card_mono) auto
  also have "\<dots> \<le> card (g ` S)"
    using fin by (intro card_image_le) auto
  finally show ?thesis .
qed

lemma length_connected_components:
  "length (connected_components G) = card (labels G ` set (nodes G))"
  by (simp add: connected_components_def length_first_seen)

lemma components_mono:
  assumes "nodes G1 = nodes G2" "set (edges G2) \<subseteq> set (edges G1)"
  shows "length (connected_components G1) \<le> length (connected_components G2)"
  unfolding length_connected_components assms(1)
proof (rule card_image_finer)
  show "finite (set (nodes G2))" by simp
  show "\<And>x y. labels G2 x = labels G2 y \<Longrightarrow> labels G1 x = labels G1 y"
    using assms(2) by (rule labels_finer)
qed

lemma length_filter_mono:
  "(\<And>x. x \<in> set xs \<Longrightarrow> P x \<Longrightarrow> Q x) \<Longrightarrow> length (filter P xs) \<le> length (filter Q xs)"
  by (induction xs) auto

lemma edges_mono:
  assumes "nodes G2 = nodes G1" "\<And>u v. has_edge G2 u v \<Longrightarrow> has_edge G1 u v"
  shows "set (edges G2) \<subseteq> set (edges G1)" and "number_of_edges G2 \<le> number_of_edges G1"
proof -
  show "set (edges G2) \<subseteq> set (edges G1)"
    using assms by (auto simp: edges_def)
  show "number_of_edges G2 \<le> number_of_edges G1"
    unfolding number_of_edges_def edges_def assms(1)
    by (rule length_filter_mono) (use assms(2) in auto)
qed

lemma kept_mono: "t1 \<le> t2 \<Longrightarrow> kept M t2 i j \<Longrightarrow> kept M t1 i j"
  by (simp add: kept_def)

lemma build_graph_nodes:
  assumes "square_mat n M" "build_graph M eps = Inr G"
  shows "nodes G = [0..<n]"
  using assms(2) unfolding build_graph_eq [OF assms(1)] by auto

lemma build_graph_mono:
  assumes sq: "square_mat n M" and le: "t1 \<le> t2"
    and G1: "build_graph M t1 = Inr G1" and G2: "build_graph M t2 = Inr G2"
  shows "has_edge G2 i j \<Longrightarrow> has_edge G1 i j"
    and "set (edges G2) \<subseteq> set (edges G1)"
    and "number_of_edges G2 \<le> number_of_edges G1"
    and "length (connected_components G1) \<le> length (connected_components G2)"
proof -
  have he: "has_edge G2 u v \<Longrightarrow> has_edge G1 u v" for u v
    unfolding build_graph_has_edge [OF sq G1] build_graph_has_edge [OF sq G2]
    using kept_mono [OF le] by blast
  then show "has_edge G2 i j \<Longrightarrow> has_edge G1 i j" .
  have nd: "nodes G2 = nodes G1"
    by (simp add: build_graph_nodes [OF sq G1] build_graph_nodes [OF sq G2])
  show sub: "set (edges G2) \<subseteq> set (edges G1)"
    by (rule edges_mono(1) [OF nd he])
  show "number_of_edges G2 \<le> number_of_edges G1"
    by (rule edges_mono(2) [OF nd he])
  show "length (connected_components G1) \<le> length (connected_components G2)"
    by (rule components_mono [OF nd [symmetric] sub])
qed

section \<open>The sweep\<close>

lemma build_graph_effective:
  assumes "square_mat n M"
  shows "build_graph M eps = Inr (effective_graph M eps)"
  using build_graph_eq [OF assms, of eps] square_matD(1) [OF assms]
  by (simp add: effective_graph_def)

lemma collect_map:
  "(\<And>x. x \<in> set xs \<Longrightarrow> f x = Inr (g x)) \<Longrightarrow> collect f xs = Inr (map g xs)"
  by (induction xs) simp_all

lemma collect_Inl:
  "xs \<noteq> [] \<Longrightarrow> (\<And>x. x \<in> set xs \<Longrightarrow> f x = Inl e) \<Longrightarrow> collect f xs = Inl e"
  by (cases xs) simp_all

lemma length_np_diff: "length (np_diff xs) = length xs - 1"
  by (simp add: np_diff_def)

lemma nth_np_diff: "Suc k < length xs \<Longrightarrow> np_diff xs ! k = xs ! Suc k - xs ! k"
  by (simp add: np_diff_def nth_tl)

lemma argmax_empty: "argmax [] = Inl ValueError"
  by (simp add: argmax_def)

lemma argmax_first:
  assumes "xs \<noteq> []"
  obtains k where "argmax xs = Inr k" "k < length xs"
    "\<And>j. j < length xs \<Longrightarrow> xs ! j \<le> xs ! k" "\<And>j. j < k \<Longrightarrow> xs ! j < xs ! k"
proof -
  define m where "m = Max (set xs)"
  define k where "k = length (takeWhile (\<lambda>x. x \<noteq> m) xs)"
  have mem: "m \<in> set xs"
    unfolding m_def using assms by (intro Max_in) auto
  have k: "k < length xs"
  proof (rule ccontr)
    assume "\<not> k < length xs"
    with length_takeWhile_le [of "\<lambda>x. x \<noteq> m" xs] have "k = length xs"
      by (simp add: k_def)
    with takeWhile_eq_take [of "\<lambda>x. x \<noteq> m" xs] have "takeWhile (\<lambda>x. x \<noteq> m) xs = xs"
      by (simp add: k_def)
    then have "\<forall>x \<in> set xs. x \<noteq> m" by simp
    with mem show False by blast
  qed
  have at: "xs ! k = m"
    using nth_length_takeWhile [of "\<lambda>x. x \<noteq> m" xs] k unfolding k_def by simp
  have ge: "xs ! j \<le> xs ! k" if "j < length xs" for j
    unfolding at m_def using that by (intro Max_ge) auto
  have lt: "xs ! j < xs ! k" if "j < k" for j
  proof -
    have "takeWhile (\<lambda>x. x \<noteq> m) xs ! j \<in> set (takeWhile (\<lambda>x. x \<noteq> m) xs)"
      using that unfolding k_def by (intro nth_mem)
    then have "takeWhile (\<lambda>x. x \<noteq> m) xs ! j \<noteq> m"
      by (auto dest: set_takeWhileD)
    moreover have "takeWhile (\<lambda>x. x \<noteq> m) xs ! j = xs ! j"
      using that unfolding k_def by (rule takeWhile_nth)
    ultimately have "xs ! j \<noteq> xs ! k" using at by simp
    moreover have "xs ! j \<le> xs ! k" using that k by (intro ge) simp
    ultimately show ?thesis by simp
  qed
  have "argmax xs = Inr k"
    using assms by (simp add: argmax_def k_def m_def)
  then show ?thesis using k ge lt by (rule that)
qed

lemma roundingD:
  assumes "rounding fl"
  shows "fl 0 = 0" and "fl (fl x) = fl x" and "x \<le> y \<Longrightarrow> fl x \<le> fl y"
  using assms by (simp_all add: rounding_def)

lemma rounding_exact: "rounding (\<lambda>x. x)"
  by (simp add: rounding_def)

lemma linspace_negative: "num < 0 \<Longrightarrow> linspace fl a b num = Inl ValueError"
  by (simp add: linspace_def)

lemma linspace_empty: "linspace fl a b 0 = Inr []"
  by (simp add: linspace_def)

lemma linspace_single: "linspace fl a b 1 = Inr [fl (fl 0 + a)]"
  by (simp add: linspace_def)

lemma linspace_samples:
  assumes "2 \<le> num"
  shows "linspace fl a b num = Inr (samples fl a b (nat num))"
proof -
  have d: "real_of_int (num - 1) = real (nat num - 1)"
    using assms by (simp add: of_nat_diff)
  show ?thesis
  proof (cases "fl (fl (b - a) / real (nat num - 1)) = 0")
    case True
    with assms show ?thesis
      by (simp add: linspace_def samples_def Let_def d comp_def)
  next
    case False
    with assms show ?thesis
      by (simp add: linspace_def samples_def Let_def d comp_def)
  qed
qed

lemma percolation_step_row:
  assumes "square_mat n M" "0 < n"
  shows "percolation_step fl eigvalsh M eps = Inr (percolation_row fl eigvalsh M eps)"
  using assms square_matD(1) [OF assms(1)]
  by (simp add: percolation_step_def percolation_row_def build_graph_effective [OF assms(1)] Let_def)

lemma length_samples [simp]: "length (samples fl a b m) = m"
  by (simp add: samples_def Let_def)

lemma nth_samples:
  assumes "k < m"
  shows "samples fl a b m ! k =
    (if k = m - 1 then b
     else fl ((if fl (fl (b - a) / real (m - 1)) = 0
               then fl (fl (real k / real (m - 1)) * fl (b - a))
               else fl (real k * fl (fl (b - a) / real (m - 1)))) + a))"
  using assms by (simp add: samples_def Let_def nth_list_update)

lemma samples_first:
  assumes "rounding fl" "2 \<le> m"
  shows "samples fl (fl a) b m ! 0 = fl a"
proof -
  have "0 < m" "0 \<noteq> m - 1" using assms(2) by simp_all
  then show ?thesis
    by (simp add: nth_samples roundingD(1,2) [OF assms(1)])
qed

lemma samples_last: "2 \<le> m \<Longrightarrow> samples fl a b m ! (m - 1) = b"
  by (simp add: nth_samples)

lemma percolation_curve_returns:
  assumes sq: "square_mat n M" and n: "0 < n" and num: "2 \<le> num"
  obtains k where "Suc k < nat num"
    and "percolation_curve fl eigvalsh M num =
      Inr \<lparr>epsilons = samples fl (fl (1/100)) (fl (99/100)) (nat num),
           n_clusters = map (\<lambda>e. fst (percolation_row fl eigvalsh M e)) (samples fl (fl (1/100)) (fl (99/100)) (nat num)),
           giant_sizes = map (\<lambda>e. fst (snd (percolation_row fl eigvalsh M e))) (samples fl (fl (1/100)) (fl (99/100)) (nat num)),
           fiedler_values = map (\<lambda>e. snd (snd (percolation_row fl eigvalsh M e))) (samples fl (fl (1/100)) (fl (99/100)) (nat num)),
           eps_c = samples fl (fl (1/100)) (fl (99/100)) (nat num) ! Suc k\<rparr>"
    and "\<And>j. Suc j < nat num \<Longrightarrow>
      real (fst (percolation_row fl eigvalsh M (samples fl (fl (1/100)) (fl (99/100)) (nat num) ! Suc j))) -
      real (fst (percolation_row fl eigvalsh M (samples fl (fl (1/100)) (fl (99/100)) (nat num) ! j)))
      \<le> real (fst (percolation_row fl eigvalsh M (samples fl (fl (1/100)) (fl (99/100)) (nat num) ! Suc k))) -
         real (fst (percolation_row fl eigvalsh M (samples fl (fl (1/100)) (fl (99/100)) (nat num) ! k)))"
    and "\<And>j. j < k \<Longrightarrow>
      real (fst (percolation_row fl eigvalsh M (samples fl (fl (1/100)) (fl (99/100)) (nat num) ! Suc j))) -
      real (fst (percolation_row fl eigvalsh M (samples fl (fl (1/100)) (fl (99/100)) (nat num) ! j)))
      < real (fst (percolation_row fl eigvalsh M (samples fl (fl (1/100)) (fl (99/100)) (nat num) ! Suc k))) -
         real (fst (percolation_row fl eigvalsh M (samples fl (fl (1/100)) (fl (99/100)) (nat num) ! k)))"
proof -
  let ?es = "samples fl (fl (1/100)) (fl (99/100)) (nat num)"
  let ?row = "percolation_row fl eigvalsh M"
  let ?cl = "map real (map fst (map ?row ?es))"
  let ?d = "np_diff ?cl"
  have m: "2 \<le> nat num" using num by simp
  have lin: "linspace fl (fl (1/100)) (fl (99/100)) num = Inr ?es"
    by (rule linspace_samples [OF num])
  have col: "collect (percolation_step fl eigvalsh M) ?es = Inr (map ?row ?es)"
    by (rule collect_map) (rule percolation_step_row [OF sq n])
  have lend: "length ?d = nat num - 1"
    by (simp add: length_np_diff)
  then have "?d \<noteq> []" using m by auto
  then obtain k where k: "argmax ?d = Inr k" "k < length ?d"
    and ge: "\<And>j. j < length ?d \<Longrightarrow> ?d ! j \<le> ?d ! k"
    and lt: "\<And>j. j < k \<Longrightarrow> ?d ! j < ?d ! k"
    using argmax_first [of ?d] by metis
  have sk: "Suc k < nat num" using k(2) lend by simp
  have dn: "?d ! j = real (fst (?row (?es ! Suc j))) - real (fst (?row (?es ! j)))"
    if "Suc j < nat num" for j
    using that by (simp add: nth_np_diff)
  have res: "percolation_curve fl eigvalsh M num =
      Inr \<lparr>epsilons = ?es, n_clusters = map (\<lambda>e. fst (?row e)) ?es,
           giant_sizes = map (\<lambda>e. fst (snd (?row e))) ?es,
           fiedler_values = map (\<lambda>e. snd (snd (?row e))) ?es,
           eps_c = ?es ! Suc k\<rparr>"
    using k(1) sk by (simp add: percolation_curve_def lin col Let_def comp_def)
  show ?thesis
  proof (rule that [OF sk res])
    fix j assume j: "Suc j < nat num"
    then have "j < length ?d" using lend by simp
    from ge [OF this] show "real (fst (?row (?es ! Suc j))) - real (fst (?row (?es ! j)))
      \<le> real (fst (?row (?es ! Suc k))) - real (fst (?row (?es ! k)))"
      by (simp only: dn [OF j] dn [OF sk])
  next
    fix j assume j: "j < k"
    then have sj: "Suc j < nat num" using sk by simp
    from lt [OF j] show "real (fst (?row (?es ! Suc j))) - real (fst (?row (?es ! j)))
      < real (fst (?row (?es ! Suc k))) - real (fst (?row (?es ! k)))"
      by (simp only: dn [OF sj] dn [OF sk])
  qed
qed

lemma percolation_curve_too_few:
  assumes "num < 2"
  shows "percolation_curve fl eigvalsh M num = Inl ValueError \<or>
         (num = 1 \<and> (\<exists>e. percolation_step fl eigvalsh M (fl (fl 0 + fl (1/100))) = Inl e \<and>
            percolation_curve fl eigvalsh M num = Inl e))"
proof (cases "num < 0")
  case True
  then show ?thesis by (simp add: percolation_curve_def linspace_negative)
next
  case False
  show ?thesis
  proof (cases "num = 0")
    case True
    then show ?thesis
      by (simp add: percolation_curve_def linspace_empty np_diff_def argmax_def)
  next
    case nz: False
    with False assms have one: "num = 1" by simp
    show ?thesis
    proof (cases "percolation_step fl eigvalsh M (fl (fl 0 + fl (1/100)))")
      case (Inl e)
      then show ?thesis
        by (simp add: one percolation_curve_def linspace_single)
    next
      case (Inr r)
      then show ?thesis
        by (simp add: one percolation_curve_def linspace_single np_diff_def argmax_def)
    qed
  qed
qed

lemma percolation_curve_InrD:
  assumes sq: "square_mat n M" and ret: "percolation_curve fl eigvalsh M num = Inr r"
  shows "0 < n" and "2 \<le> num"
proof -
  show num: "2 \<le> num"
  proof (rule ccontr)
    assume "\<not> 2 \<le> num"
    then have "num < 2" by simp
    from percolation_curve_too_few [OF this, of fl eigvalsh M] ret show False by auto
  qed
  show "0 < n"
  proof (rule ccontr)
    assume "\<not> 0 < n"
    then have n0: "length M = 0" using square_matD(1) [OF sq] by simp
    let ?es = "samples fl (fl (1/100)) (fl (99/100)) (nat num)"
    have "length ?es \<noteq> 0" using num by simp
    then have "?es \<noteq> []" by (simp only: length_0_conv not_False_eq_True)
    moreover have "percolation_step fl eigvalsh M e = Inl ZeroDivisionError" for e
      unfolding percolation_step_def build_graph_effective [OF sq] using n0
      by (simp add: Let_def)
    ultimately have "collect (percolation_step fl eigvalsh M) ?es = Inl ZeroDivisionError"
      by (intro collect_Inl) auto
    with ret show False
      by (simp add: percolation_curve_def linspace_samples [OF num])
  qed
qed

lemma percolation_curve_lists:
  assumes sq: "square_mat n M" and n: "0 < n" and num: "2 \<le> num"
  shows "\<exists>e. percolation_curve fl eigvalsh M num =
      Inr \<lparr>epsilons = samples fl (fl (1/100)) (fl (99/100)) (nat num),
           n_clusters = map (\<lambda>e. fst (percolation_row fl eigvalsh M e)) (samples fl (fl (1/100)) (fl (99/100)) (nat num)),
           giant_sizes = map (\<lambda>e. fst (snd (percolation_row fl eigvalsh M e))) (samples fl (fl (1/100)) (fl (99/100)) (nat num)),
           fiedler_values = map (\<lambda>e. snd (snd (percolation_row fl eigvalsh M e))) (samples fl (fl (1/100)) (fl (99/100)) (nat num)),
           eps_c = e\<rparr>"
proof (rule percolation_curve_returns [OF sq n num, of fl eigvalsh])
  fix k
  assume "percolation_curve fl eigvalsh M num =
      Inr \<lparr>epsilons = samples fl (fl (1/100)) (fl (99/100)) (nat num),
           n_clusters = map (\<lambda>e. fst (percolation_row fl eigvalsh M e)) (samples fl (fl (1/100)) (fl (99/100)) (nat num)),
           giant_sizes = map (\<lambda>e. fst (snd (percolation_row fl eigvalsh M e))) (samples fl (fl (1/100)) (fl (99/100)) (nat num)),
           fiedler_values = map (\<lambda>e. snd (snd (percolation_row fl eigvalsh M e))) (samples fl (fl (1/100)) (fl (99/100)) (nat num)),
           eps_c = samples fl (fl (1/100)) (fl (99/100)) (nat num) ! Suc k\<rparr>"
  then show ?thesis by (rule exI)
qed

lemma build_graph_symmetric_adj:
  assumes sq: "square_mat n M" and sy: "symmetric_mat n M" and G: "build_graph M eps = Inr G"
    and ij: "i < n" "j < n" "i \<noteq> j"
  shows "adj G (i, j) = (if kept M eps i j then Some (M ! i ! j) else None)"
proof -
  have eq: "M ! j ! i = M ! i ! j"
    using sy ij by (simp add: symmetric_mat_def)
  show ?thesis
  proof (cases "adj G (i, j)")
    case None
    then have "\<not> has_edge G i j" by (simp add: has_edge_def)
    then have "\<not> kept M eps i j"
      using build_graph_has_edge [OF sq G, of i j] ij by simp
    with None show ?thesis by simp
  next
    case (Some x)
    from build_graph_weight [OF sq G Some] have "kept M eps i j \<and> x = M ! i ! j"
      unfolding kept_def eq by blast
    with Some show ?thesis by simp
  qed
qed

lemma build_graph_symmetric_mono:
  assumes sq: "square_mat n M" and sy: "symmetric_mat n M" and le: "t1 \<le> t2"
    and G1: "build_graph M t1 = Inr G1" and G2: "build_graph M t2 = Inr G2"
    and x: "adj G2 (i, j) = Some x"
  shows "adj G1 (i, j) = Some x"
proof -
  from x have "has_edge G2 i j" by (simp add: has_edge_def)
  then have ij: "i < n" "j < n" "i \<noteq> j"
    using build_graph_has_edge [OF sq G2, of i j] by simp_all
  from x build_graph_symmetric_adj [OF sq sy G2 ij]
  have k2: "kept M t2 i j" and xe: "x = M ! i ! j"
    by (simp_all split: if_splits)
  from kept_mono [OF le k2] build_graph_symmetric_adj [OF sq sy G1 ij] xe
  show ?thesis by simp
qed

text \<open>
  C3. For an n x n matrix and thresholds \<open>t1 \<le> t2\<close>, every edge of the graph induced at
  \<open>t2\<close> is an edge of the graph induced at \<open>t1\<close> (with the same weight when the matrix is
  symmetric), so the graph at \<open>t2\<close> has no more edges and at least as many connected
  components. In every sweep that \<open>percolation_curve\<close> returns, the first threshold is
  0.01, the last is 0.99 (the doubles of these literals), and the cluster count at the
  first is at most the one at the last.
\<close>

theorem threshold_monotone:
  assumes sq: "square_mat n M" and le: "t1 \<le> t2"
  shows "\<exists>G1 G2. build_graph M t1 = Inr G1 \<and> build_graph M t2 = Inr G2 \<and>
     (\<forall>i j. has_edge G2 i j \<longrightarrow> has_edge G1 i j) \<and>
     set (edges G2) \<subseteq> set (edges G1) \<and>
     number_of_edges G2 \<le> number_of_edges G1 \<and>
     length (connected_components G1) \<le> length (connected_components G2) \<and>
     (symmetric_mat n M \<longrightarrow> (\<forall>i j x. adj G2 (i, j) = Some x \<longrightarrow> adj G1 (i, j) = Some x)) \<and>
     (\<forall>fl eigvalsh num r. rounding fl \<longrightarrow> percolation_curve fl eigvalsh M num = Inr r \<longrightarrow>
        epsilons r \<noteq> [] \<and> length (n_clusters r) = length (epsilons r) \<and>
        hd (epsilons r) = fl (1/100) \<and> last (epsilons r) = fl (99/100) \<and>
        hd (n_clusters r) \<le> last (n_clusters r))"
proof -
  have G1: "build_graph M t1 = Inr (effective_graph M t1)"
    and G2: "build_graph M t2 = Inr (effective_graph M t2)"
    by (rule build_graph_effective [OF sq])+
  note mono = build_graph_mono [OF sq le G1 G2]
  have edge: "\<forall>i j. has_edge (effective_graph M t2) i j \<longrightarrow> has_edge (effective_graph M t1) i j"
    using mono(1) by blast
  have wts: "symmetric_mat n M \<longrightarrow>
      (\<forall>i j x. adj (effective_graph M t2) (i, j) = Some x \<longrightarrow> adj (effective_graph M t1) (i, j) = Some x)"
  proof (intro impI allI)
    fix i j x
    assume "symmetric_mat n M" "adj (effective_graph M t2) (i, j) = Some x"
    then show "adj (effective_graph M t1) (i, j) = Some x"
      by (rule build_graph_symmetric_mono [OF sq _ le G1 G2])
  qed
  have sweep: "epsilons r \<noteq> [] \<and> length (n_clusters r) = length (epsilons r) \<and>
        hd (epsilons r) = fl (1/100) \<and> last (epsilons r) = fl (99/100) \<and>
        hd (n_clusters r) \<le> last (n_clusters r)"
    if fl: "rounding fl" and ret: "percolation_curve fl eigvalsh M num = Inr r"
    for fl eigvalsh num r
  proof -
    from percolation_curve_InrD [OF sq ret] have n: "0 < n" and num: "2 \<le> num" .
    let ?m = "nat num"
    let ?es = "samples fl (fl (1/100)) (fl (99/100)) ?m"
    let ?cl = "map (\<lambda>e. fst (percolation_row fl eigvalsh M e)) ?es"
    have m: "2 \<le> ?m" using num by simp
    from percolation_curve_lists [OF sq n num, of fl eigvalsh] ret
    have r: "epsilons r = ?es" "n_clusters r = ?cl"
      by auto
    have "length ?es \<noteq> 0" using m by simp
    then have ne: "?es \<noteq> []" by (simp only: length_0_conv not_False_eq_True)
    have h: "hd ?es = fl (1/100)"
      using samples_first [OF fl m, of "1/100" "fl (99/100)"] ne by (simp add: hd_conv_nth)
    have l: "last ?es = fl (99/100)"
      using samples_last [OF m, of fl "fl (1/100)" "fl (99/100)"] ne by (simp add: last_conv_nth)
    have cnt: "fst (percolation_row fl eigvalsh M e) = length (connected_components (effective_graph M e))" for e
      by (simp add: percolation_row_def Let_def)
    have "length (connected_components (effective_graph M (fl (1/100))))
        \<le> length (connected_components (effective_graph M (fl (99/100))))"
    proof (rule build_graph_mono(4) [OF sq])
      show "fl (1/100) \<le> fl (99/100)" by (rule roundingD(3) [OF fl]) simp
      show "build_graph M (fl (1/100)) = Inr (effective_graph M (fl (1/100)))"
        by (rule build_graph_effective [OF sq])
      show "build_graph M (fl (99/100)) = Inr (effective_graph M (fl (99/100)))"
        by (rule build_graph_effective [OF sq])
    qed
    then have "length (connected_components (effective_graph M (hd ?es)))
        \<le> length (connected_components (effective_graph M (last ?es)))"
      unfolding h l .
    then have "hd ?cl \<le> last ?cl"
      using ne by (simp add: hd_map last_map cnt)
    with ne h l show ?thesis by (simp add: r)
  qed
  have sweeps: "\<forall>fl eigvalsh num r. rounding fl \<longrightarrow> percolation_curve fl eigvalsh M num = Inr r \<longrightarrow>
        epsilons r \<noteq> [] \<and> length (n_clusters r) = length (epsilons r) \<and>
        hd (epsilons r) = fl (1/100) \<and> last (epsilons r) = fl (99/100) \<and>
        hd (n_clusters r) \<le> last (n_clusters r)"
  proof (intro allI impI)
    fix fl eigvalsh num r
    assume "rounding fl" "percolation_curve fl eigvalsh M num = Inr r"
    then show "epsilons r \<noteq> [] \<and> length (n_clusters r) = length (epsilons r) \<and>
        hd (epsilons r) = fl (1/100) \<and> last (epsilons r) = fl (99/100) \<and>
        hd (n_clusters r) \<le> last (n_clusters r)"
      by (rule sweep)
  qed
  show ?thesis
    using G1 G2 edge mono(2) mono(3) mono(4) wts sweeps
    by (intro exI [of _ "effective_graph M t1"] exI [of _ "effective_graph M t2"] conjI)
qed

theorem threshold_monotone_witness:
  "square_mat 2 [[1, 9/10], [9/10, 1]] \<and> (1/2 :: real) \<le> 19/20 \<and>
   number_of_edges (projr (build_graph [[1, 9/10], [9/10, 1]] (19/20)))
     \<le> number_of_edges (projr (build_graph [[1, 9/10], [9/10, 1]] (1/2))) \<and>
   length (connected_components (projr (build_graph [[1, 9/10], [9/10, 1]] (1/2))))
     \<le> length (connected_components (projr (build_graph [[1, 9/10], [9/10, 1]] (19/20)))) \<and>
   length (connected_components (projr (build_graph [[1, 9/10], [9/10, 1]] (1/2)))) = 1 \<and>
   length (connected_components (projr (build_graph [[1, 9/10], [9/10, 1]] (19/20)))) = 2 \<and>
   rounding (\<lambda>x. x) \<and>
   percolation_curve (\<lambda>x. x) (\<lambda>L. None) [[1, 9/10], [9/10, 1]] 2 =
     Inr \<lparr>epsilons = [1/100, 99/100], n_clusters = [1, 2], giant_sizes = [1, 1/2],
          fiedler_values = [0, 0], eps_c = 99/100\<rparr> \<and>
   hd (n_clusters (projr (percolation_curve (\<lambda>x. x) (\<lambda>L. None) [[1, 9/10], [9/10, 1]] 2)))
     \<le> last (n_clusters (projr (percolation_curve (\<lambda>x. x) (\<lambda>L. None) [[1, 9/10], [9/10, 1]] 2)))"
proof -
  let ?M = "[[1, 9/10], [9/10, 1::real]]"
  let ?r = "\<lparr>epsilons = [1/100, 99/100], n_clusters = [1, 2], giant_sizes = [1, 1/2],
          fiedler_values = [0, 0], eps_c = 99/100 :: real\<rparr>"
  have sq: "square_mat 2 ?M"
    by (simp add: square_mat_def)
  have le: "(1/2 :: real) \<le> 19/20" by simp
  have ro: "rounding (\<lambda>x. x)"
    by (rule rounding_exact)
  have ev: "percolation_curve (\<lambda>x. x) (\<lambda>L. None) ?M 2 = Inr ?r"
    by code_simp
  from threshold_monotone [OF sq le] obtain G1 G2 where
    G: "build_graph ?M (1/2) = Inr G1" "build_graph ?M (19/20) = Inr G2"
    "number_of_edges G2 \<le> number_of_edges G1"
    "length (connected_components G1) \<le> length (connected_components G2)"
    and sw: "\<forall>fl eigvalsh num r. rounding fl \<longrightarrow> percolation_curve fl eigvalsh ?M num = Inr r \<longrightarrow>
        epsilons r \<noteq> [] \<and> length (n_clusters r) = length (epsilons r) \<and>
        hd (epsilons r) = fl (1/100) \<and> last (epsilons r) = fl (99/100) \<and>
        hd (n_clusters r) \<le> last (n_clusters r)"
    by (elim exE conjE) (rule that, assumption+)
  from G have mono: "number_of_edges (projr (build_graph ?M (19/20)))
     \<le> number_of_edges (projr (build_graph ?M (1/2)))"
    "length (connected_components (projr (build_graph ?M (1/2))))
     \<le> length (connected_components (projr (build_graph ?M (19/20))))"
    by simp_all
  from sw [rule_format, OF ro ev]
  have "hd (n_clusters ?r) \<le> last (n_clusters ?r)"
    by (elim conjE)
  then have hl: "hd (n_clusters (projr (percolation_curve (\<lambda>x. x) (\<lambda>L. None) ?M 2)))
     \<le> last (n_clusters (projr (percolation_curve (\<lambda>x. x) (\<lambda>L. None) ?M 2)))"
    by (simp only: ev sum.sel)
  have c1: "length (connected_components (projr (build_graph ?M (1/2)))) = 1"
    by code_simp
  have c2: "length (connected_components (projr (build_graph ?M (19/20)))) = 2"
    by code_simp
  from sq le mono c1 c2 ro ev hl show ?thesis by (intro conjI)
qed

text \<open>
  C5 (amended). For an n x n matrix with \<open>n \<ge> 1\<close> and at least two steps,
  \<open>percolation_curve\<close> returns a trace over \<open>n_steps\<close> thresholds, the samples of
  \<^verbatim>\<open>np.linspace(0.01, 0.99, n_steps)\<close>: the first is 0.01, the last is 0.99, and sample \<open>i\<close>
  between them is \<open>i * step + 0.01\<close> with \<open>step = (0.99 - 0.01) / (n_steps - 1)\<close>, every
  operation rounded to a double (so the samples are evenly spaced up to rounding). At each
  threshold the trace holds the number of connected components of the induced graph, the
  size of the largest component divided by \<open>n\<close>, and a Fiedler value that is 0 unless the
  graph has more than one node and at least one edge, and is then the second smallest
  value the eigenvalue solver returns (0 when the solver fails or returns fewer than two
  values). \<open>eps_c\<close> is the threshold at index \<open>k + 1\<close> where \<open>k\<close> is the first index at which
  the step-to-step difference of the cluster counts is greatest.
\<close>

theorem percolation_curve_trace:
  assumes sq: "square_mat n M" and n: "0 < n" and num: "2 \<le> num" and fl: "rounding fl"
  shows "\<exists>r k. percolation_curve fl eigvalsh M num = Inr r \<and>
     length (epsilons r) = nat num \<and> length (n_clusters r) = nat num \<and>
     length (giant_sizes r) = nat num \<and> length (fiedler_values r) = nat num \<and>
     epsilons r ! 0 = fl (1/100) \<and> epsilons r ! (nat num - 1) = fl (99/100) \<and>
     (\<forall>i < nat num.
        epsilons r ! i =
          (if i = nat num - 1 then fl (99/100)
           else fl ((if fl (fl (fl (99/100) - fl (1/100)) / real (nat num - 1)) = 0
                     then fl (fl (real i / real (nat num - 1)) * fl (fl (99/100) - fl (1/100)))
                     else fl (real i * fl (fl (fl (99/100) - fl (1/100)) / real (nat num - 1))))
                    + fl (1/100))) \<and>
        (\<exists>G. build_graph M (epsilons r ! i) = Inr G \<and>
           n_clusters r ! i = length (connected_components G) \<and>
           giant_sizes r ! i = fl (real (giant_size (connected_components G)) / real n) \<and>
           fiedler_values r ! i =
             (if 1 < number_of_nodes G \<and> 0 < number_of_edges G then
                (case eigvalsh (laplacian_matrix G) of
                   None \<Rightarrow> 0
                 | Some es \<Rightarrow> if 1 < length es then sort es ! 1 else 0)
              else 0))) \<and>
     Suc k < nat num \<and> eps_c r = epsilons r ! Suc k \<and>
     (\<forall>j. Suc j < nat num \<longrightarrow>
        real (n_clusters r ! Suc j) - real (n_clusters r ! j)
          \<le> real (n_clusters r ! Suc k) - real (n_clusters r ! k)) \<and>
     (\<forall>j < k.
        real (n_clusters r ! Suc j) - real (n_clusters r ! j)
          < real (n_clusters r ! Suc k) - real (n_clusters r ! k))"
proof (rule percolation_curve_returns [OF sq n num, of fl eigvalsh])
  fix k
  let ?es = "samples fl (fl (1/100)) (fl (99/100)) (nat num)"
  let ?row = "percolation_row fl eigvalsh M"
  let ?r = "\<lparr>epsilons = ?es, n_clusters = map (\<lambda>e. fst (?row e)) ?es,
           giant_sizes = map (\<lambda>e. fst (snd (?row e))) ?es,
           fiedler_values = map (\<lambda>e. snd (snd (?row e))) ?es,
           eps_c = ?es ! Suc k\<rparr>"
  assume sk: "Suc k < nat num"
    and res: "percolation_curve fl eigvalsh M num = Inr ?r"
    and ge: "\<And>j. Suc j < nat num \<Longrightarrow>
      real (fst (?row (?es ! Suc j))) - real (fst (?row (?es ! j)))
      \<le> real (fst (?row (?es ! Suc k))) - real (fst (?row (?es ! k)))"
    and lt: "\<And>j. j < k \<Longrightarrow>
      real (fst (?row (?es ! Suc j))) - real (fst (?row (?es ! j)))
      < real (fst (?row (?es ! Suc k))) - real (fst (?row (?es ! k)))"
  have len: "length M = n" by (rule square_matD(1) [OF sq])
  have m: "2 \<le> nat num" using num by simp
  have lens: "length (epsilons ?r) = nat num" "length (n_clusters ?r) = nat num"
      "length (giant_sizes ?r) = nat num" "length (fiedler_values ?r) = nat num"
    by simp_all
  have first: "epsilons ?r ! 0 = fl (1/100)"
    using samples_first [OF fl m, of "1/100" "fl (99/100)"] by simp
  have final: "epsilons ?r ! (nat num - 1) = fl (99/100)"
    using samples_last [OF m, of fl "fl (1/100)" "fl (99/100)"] by simp
  have rows: "(\<forall>i < nat num.
        epsilons ?r ! i =
          (if i = nat num - 1 then fl (99/100)
           else fl ((if fl (fl (fl (99/100) - fl (1/100)) / real (nat num - 1)) = 0
                     then fl (fl (real i / real (nat num - 1)) * fl (fl (99/100) - fl (1/100)))
                     else fl (real i * fl (fl (fl (99/100) - fl (1/100)) / real (nat num - 1))))
                    + fl (1/100))) \<and>
        (\<exists>G. build_graph M (epsilons ?r ! i) = Inr G \<and>
           n_clusters ?r ! i = length (connected_components G) \<and>
           giant_sizes ?r ! i = fl (real (giant_size (connected_components G)) / real n) \<and>
           fiedler_values ?r ! i =
             (if 1 < number_of_nodes G \<and> 0 < number_of_edges G then
                (case eigvalsh (laplacian_matrix G) of
                   None \<Rightarrow> 0
                 | Some es \<Rightarrow> if 1 < length es then sort es ! 1 else 0)
              else 0)))"
  proof (intro allI impI conjI)
    fix i assume i: "i < nat num"
    show "epsilons ?r ! i =
          (if i = nat num - 1 then fl (99/100)
           else fl ((if fl (fl (fl (99/100) - fl (1/100)) / real (nat num - 1)) = 0
                     then fl (fl (real i / real (nat num - 1)) * fl (fl (99/100) - fl (1/100)))
                     else fl (real i * fl (fl (fl (99/100) - fl (1/100)) / real (nat num - 1))))
                    + fl (1/100)))"
      using nth_samples [OF i, of fl "fl (1/100)" "fl (99/100)"] by simp
    let ?G = "effective_graph M (?es ! i)"
    have "build_graph M (epsilons ?r ! i) = Inr ?G"
      using build_graph_effective [OF sq] by simp
    moreover have "n_clusters ?r ! i = length (connected_components ?G)"
      using i by (simp add: percolation_row_def Let_def)
    moreover have "giant_sizes ?r ! i = fl (real (giant_size (connected_components ?G)) / real n)"
      using i by (simp add: percolation_row_def Let_def len)
    moreover have "fiedler_values ?r ! i =
             (if 1 < number_of_nodes ?G \<and> 0 < number_of_edges ?G then
                (case eigvalsh (laplacian_matrix ?G) of
                   None \<Rightarrow> 0
                 | Some es \<Rightarrow> if 1 < length es then sort es ! 1 else 0)
              else 0)"
      using i by (auto simp: percolation_row_def fiedler_of_def Let_def split: option.splits)
    ultimately show "(\<exists>G. build_graph M (epsilons ?r ! i) = Inr G \<and>
           n_clusters ?r ! i = length (connected_components G) \<and>
           giant_sizes ?r ! i = fl (real (giant_size (connected_components G)) / real n) \<and>
           fiedler_values ?r ! i =
             (if 1 < number_of_nodes G \<and> 0 < number_of_edges G then
                (case eigvalsh (laplacian_matrix G) of
                   None \<Rightarrow> 0
                 | Some es \<Rightarrow> if 1 < length es then sort es ! 1 else 0)
              else 0))"
      by (intro exI [of _ ?G] conjI)
  qed
  have epsc: "eps_c ?r = epsilons ?r ! Suc k" by simp
  have ges: "\<forall>j. Suc j < nat num \<longrightarrow>
        real (n_clusters ?r ! Suc j) - real (n_clusters ?r ! j)
          \<le> real (n_clusters ?r ! Suc k) - real (n_clusters ?r ! k)"
  proof (intro allI impI)
    fix j assume j: "Suc j < nat num"
    from ge [OF j] j sk
    show "real (n_clusters ?r ! Suc j) - real (n_clusters ?r ! j)
          \<le> real (n_clusters ?r ! Suc k) - real (n_clusters ?r ! k)"
      by simp
  qed
  have lts: "\<forall>j < k.
        real (n_clusters ?r ! Suc j) - real (n_clusters ?r ! j)
          < real (n_clusters ?r ! Suc k) - real (n_clusters ?r ! k)"
  proof (intro allI impI)
    fix j assume j: "j < k"
    from lt [OF j] j sk
    show "real (n_clusters ?r ! Suc j) - real (n_clusters ?r ! j)
          < real (n_clusters ?r ! Suc k) - real (n_clusters ?r ! k)"
      by simp
  qed
  show ?thesis
    using res lens first final rows sk epsc ges lts
    by (intro exI [of _ ?r] exI [of _ k] conjI)
qed

theorem percolation_curve_trace_witness:
  "square_mat 2 [[1, 9/10], [9/10, 1]] \<and> (0::nat) < 2 \<and> (2::int) \<le> 2 \<and> rounding (\<lambda>x. x) \<and>
   percolation_curve (\<lambda>x. x) (\<lambda>L. Some [9/5, 0]) [[1, 9/10], [9/10, 1]] 2 =
     Inr \<lparr>epsilons = [1/100, 99/100], n_clusters = [1, 2], giant_sizes = [1, 1/2],
          fiedler_values = [9/5, 0], eps_c = 99/100\<rparr> \<and>
   length (epsilons (projr (percolation_curve (\<lambda>x. x) (\<lambda>L. Some [9/5, 0]) [[1, 9/10], [9/10, 1]] 2))) = 2 \<and>
   eps_c (projr (percolation_curve (\<lambda>x. x) (\<lambda>L. Some [9/5, 0]) [[1, 9/10], [9/10, 1]] 2)) =
     epsilons (projr (percolation_curve (\<lambda>x. x) (\<lambda>L. Some [9/5, 0]) [[1, 9/10], [9/10, 1]] 2)) ! 1"
proof -
  let ?M = "[[1, 9/10], [9/10, 1::real]]"
  let ?eig = "\<lambda>L :: matrix. Some [9/5, 0 :: real]"
  have sq: "square_mat 2 ?M"
    by (simp add: square_mat_def)
  have n: "(0::nat) < 2" by simp
  have num: "(2::int) \<le> 2" by simp
  have ro: "rounding (\<lambda>x. x)"
    by (rule rounding_exact)
  have ev: "percolation_curve (\<lambda>x. x) ?eig ?M 2 =
     Inr \<lparr>epsilons = [1/100, 99/100], n_clusters = [1, 2], giant_sizes = [1, 1/2],
          fiedler_values = [9/5, 0], eps_c = 99/100\<rparr>"
    by code_simp
  from percolation_curve_trace [OF sq n num ro, of ?eig] obtain r k where
    r: "percolation_curve (\<lambda>x. x) ?eig ?M 2 = Inr r" and len: "length (epsilons r) = nat 2"
    and k: "Suc k < nat 2" and c: "eps_c r = epsilons r ! Suc k"
    by (elim exE conjE) (rule that, assumption+)
  from k have k0: "k = 0" by simp
  from r len have l2: "length (epsilons (projr (percolation_curve (\<lambda>x. x) ?eig ?M 2))) = 2"
    by simp
  from r c k0 have c1: "eps_c (projr (percolation_curve (\<lambda>x. x) ?eig ?M 2)) =
     epsilons (projr (percolation_curve (\<lambda>x. x) ?eig ?M 2)) ! 1"
    by simp
  from sq n num ro ev l2 c1 show ?thesis by (intro conjI)
qed

text \<open>
  With a single step there is one threshold and no step-to-step difference:
  \<^verbatim>\<open>np.argmax\<close> of the empty array raises and no critical threshold is returned.
\<close>

theorem percolation_curve_single_step_counterexample:
  "percolation_curve (\<lambda>x. x) (\<lambda>L. None) [[1]] 1 = Inl ValueError"
  by code_simp

section \<open>The evolving matrix\<close>

lemma square_symmetric_noise:
  "square_mat n (fst (symmetric_noise gauss pos scale n))"
proof -
  let ?R = "mat_of n (\<lambda>i j. 0 + scale * gauss (pos + i * n + j))"
  have sqR: "square_mat n ?R" by simp
  have sqT: "square_mat n (mat_T ?R)"
    using square_mat_T [of ?R] by simp
  have "square_mat n (fill_diagonal (mat_half (mat_add ?R (mat_T ?R))) 0)"
    by (intro square_fill_diagonal square_mat_half square_mat_add sqR sqT)
  then show ?thesis
    by (simp add: symmetric_noise_def rng_normal_def)
qed

lemma evolve_coherent:
  assumes sq: "square_mat n M"
  shows "coherence_matrix n (fst (evolve gauss n (M, pos)))"
proof -
  obtain noise p1 where n1: "symmetric_noise gauss pos (3 / 100) n = (noise, p1)"
    by (cases "symmetric_noise gauss pos (3 / 100) n")
  obtain drift p2 where n2: "symmetric_noise gauss p1 (1 / 100) n = (drift, p2)"
    by (cases "symmetric_noise gauss p1 (1 / 100) n")
  have sqn: "square_mat n noise"
    using square_symmetric_noise [of n gauss pos "3 / 100"] by (simp add: n1)
  have sqd: "square_mat n drift"
    using square_symmetric_noise [of n gauss p1 "1 / 100"] by (simp add: n2)
  define D where "D = fill_diagonal (clip (mat_add (mat_add M noise) drift) 0 1) 1"
  have sqA: "square_mat n (mat_add (mat_add M noise) drift)"
    by (intro square_mat_add sq sqn sqd)
  have sqC: "square_mat n (clip (mat_add (mat_add M noise) drift) 0 1)"
    by (rule square_clip [OF sqA])
  have sqD: "square_mat n D"
    unfolding D_def by (rule square_fill_diagonal [OF sqC])
  have lenD: "length D = n" by (rule square_matD(1) [OF sqD])
  have sqT: "square_mat n (mat_T D)"
    using square_mat_T [of D] by (simp add: lenD)
  have sqS: "square_mat n (mat_add D (mat_T D))"
    by (rule square_mat_add [OF sqD sqT])
  have res: "fst (evolve gauss n (M, pos)) = mat_half (mat_add D (mat_T D))"
    by (simp add: evolve_def n1 n2 D_def Let_def)
  have Dent: "D ! i ! j = (if i = j then 1 else min 1 (max 0 (mat_add (mat_add M noise) drift ! i ! j)))"
    if "i < n" "j < n" for i j
    unfolding D_def using that by (simp add: nth_fill_diagonal [OF sqC] nth_clip [OF sqA])
  have Drange: "0 \<le> D ! i ! j \<and> D ! i ! j \<le> 1" if "i < n" "j < n" for i j
    using Dent [OF that] by auto
  have ent: "mat_half (mat_add D (mat_T D)) ! i ! j = (D ! i ! j + D ! j ! i) / 2"
    if "i < n" "j < n" for i j
    using that by (simp add: nth_mat_half [OF sqS] nth_mat_add [OF sqD sqT] nth_mat_T lenD)
  have "coherence_matrix n (mat_half (mat_add D (mat_T D)))"
    unfolding coherence_matrix_def
  proof (intro conjI ballI)
    show "square_mat n (mat_half (mat_add D (mat_T D)))"
      by (rule square_mat_half [OF sqS])
  next
    fix i j assume "i \<in> {0..<n}" "j \<in> {0..<n}"
    then have ij: "i < n" "j < n" by simp_all
    show "mat_half (mat_add D (mat_T D)) ! i ! j = mat_half (mat_add D (mat_T D)) ! j ! i"
      by (simp add: ent [OF ij] ent [OF ij(2) ij(1)] add.commute)
    from Drange [OF ij] Drange [OF ij(2) ij(1)]
    show "0 \<le> mat_half (mat_add D (mat_T D)) ! i ! j"
      and "mat_half (mat_add D (mat_T D)) ! i ! j \<le> 1"
      by (simp_all add: ent [OF ij])
  next
    fix i assume "i \<in> {0..<n}"
    then have i: "i < n" by simp
    show "mat_half (mat_add D (mat_T D)) ! i ! i = 1"
      by (simp add: ent [OF i i] Dent [OF i i])
  qed
  then show ?thesis by (simp only: res)
qed

lemma coherence_matrix_square: "coherence_matrix n M \<Longrightarrow> square_mat n M"
  by (simp add: coherence_matrix_def)

lemma run_steps_append:
  "run_steps f (xs @ ys) s = (case run_steps f xs s of Inl e \<Rightarrow> Inl e | Inr s' \<Rightarrow> run_steps f ys s')"
  by (induction xs arbitrary: s) (simp_all split: sum.splits)

lemma detect_events_None: "detect_events t None c = []"
  by (simp add: detect_events_def)

lemma detect_events_Some: "detect_events t (Some cs) c = event_between t (length cs) c"
  by (simp add: detect_events_def event_between_def)

lemma expected_events_Nil: "expected_events [] = []"
  by (simp add: expected_events_def)

lemma expected_events_single: "expected_events [c] = []"
  by (simp add: expected_events_def)

lemma expected_events_snoc:
  assumes "h \<noteq> []"
  shows "expected_events (h @ [c]) = expected_events h @ event_between (length h) (last h) c"
proof -
  have len: "1 \<le> length h" using assms by (cases h) simp_all
  have upt: "[1..<length (h @ [c])] = [1..<length h] @ [length h]"
    using len by simp
  have same: "map (\<lambda>t. event_between t ((h @ [c]) ! (t - 1)) ((h @ [c]) ! t)) [1..<length h] =
      map (\<lambda>t. event_between t (h ! (t - 1)) (h ! t)) [1..<length h]"
    by (rule map_cong) (auto simp: nth_append)
  have lastel: "(h @ [c]) ! (length h - Suc 0) = last h"
    using assms len by (simp add: nth_append last_conv_nth)
  show ?thesis
    unfolding expected_events_def upt map_append concat_append same
    by (simp add: lastel)
qed

lemma sim_step_square:
  assumes "square_mat n (M_t s)"
  obtains s' where "sim_step gauss n steps eps t s = Inr s'"
    and "M_t s' = fst (evolve gauss n (M_t s, rng_pos s))"
    and "\<exists>cs. prev_components s' = Some cs \<and> st_history s' = st_history s @ [length cs] \<and>
           st_events s' = st_events s @ detect_events t (prev_components s) (length cs)"
    and "set (st_snapshots s') \<subseteq> set (st_snapshots s) \<union>
           {sn. snap_M sn = fst (evolve gauss n (M_t s, rng_pos s))}"
proof -
  obtain M' pos' where ev: "evolve gauss n (M_t s, rng_pos s) = (M', pos')"
    by (cases "evolve gauss n (M_t s, rng_pos s)")
  have "coherence_matrix n M'"
    using evolve_coherent [OF assms, of gauss "rng_pos s"] by (simp add: ev)
  then have sq: "square_mat n M'" by (rule coherence_matrix_square)
  have bg: "build_graph M' eps = Inr (effective_graph M' eps)"
    by (rule build_graph_effective [OF sq])
  let ?cs = "connected_components (effective_graph M' eps)"
  let ?s' = "\<lparr>M_t = M', rng_pos = pos', prev_components = Some ?cs,
      st_snapshots = st_snapshots s @
        (if t = 0 \<or> int t = steps div 2 \<or> int t = steps - 1
         then [\<lparr>time = t, snap_M = M', snap_G = effective_graph M' eps, n_components = length ?cs\<rparr>]
         else []),
      st_history = st_history s @ [length ?cs],
      st_events = st_events s @ detect_events t (prev_components s) (length ?cs)\<rparr>"
  have st: "sim_step gauss n steps eps t s = Inr ?s'"
    by (simp add: sim_step_def ev bg Let_def)
  show ?thesis
  proof (rule that [OF st])
    show "M_t ?s' = fst (evolve gauss n (M_t s, rng_pos s))" by (simp add: ev)
    show "\<exists>cs. prev_components ?s' = Some cs \<and> st_history ?s' = st_history s @ [length cs] \<and>
           st_events ?s' = st_events s @ detect_events t (prev_components s) (length cs)"
      by simp
    show "set (st_snapshots ?s') \<subseteq> set (st_snapshots s) \<union>
           {sn. snap_M sn = fst (evolve gauss n (M_t s, rng_pos s))}"
      by (auto simp: ev)
  qed
qed

lemma run_steps_upt:
  assumes sq: "square_mat n M_base"
  shows "\<exists>s. run_steps (sim_step gauss n steps eps) [0..<k] (init_state M_base) = Inr s \<and>
     square_mat n (M_t s) \<and> (0 < k \<longrightarrow> coherence_matrix n (M_t s)) \<and>
     (\<forall>sn \<in> set (st_snapshots s). coherence_matrix n (snap_M sn)) \<and>
     length (st_history s) = k \<and> st_events s = expected_events (st_history s) \<and>
     (case prev_components s of None \<Rightarrow> k = 0 | Some cs \<Rightarrow> 0 < k \<and> length cs = last (st_history s))"
proof (induction k)
  case 0
  show ?case
    using sq by (simp add: init_state_def expected_events_Nil)
next
  case (Suc k)
  then obtain s where run: "run_steps (sim_step gauss n steps eps) [0..<k] (init_state M_base) = Inr s"
    and sqs: "square_mat n (M_t s)"
    and snaps: "\<forall>sn \<in> set (st_snapshots s). coherence_matrix n (snap_M sn)"
    and len: "length (st_history s) = k"
    and evs: "st_events s = expected_events (st_history s)"
    and prev: "case prev_components s of None \<Rightarrow> k = 0
                | Some cs \<Rightarrow> 0 < k \<and> length cs = last (st_history s)"
    by (elim exE conjE) (rule that, assumption+)
  let ?M' = "fst (evolve gauss n (M_t s, rng_pos s))"
  have coh: "coherence_matrix n ?M'"
    by (rule evolve_coherent [OF sqs])
  obtain s' cs where st: "sim_step gauss n steps eps k s = Inr s'"
    and M': "M_t s' = ?M'"
    and pc: "prev_components s' = Some cs"
    and hist: "st_history s' = st_history s @ [length cs]"
    and ev': "st_events s' = st_events s @ detect_events k (prev_components s) (length cs)"
    and sn': "set (st_snapshots s') \<subseteq> set (st_snapshots s) \<union> {sn. snap_M sn = ?M'}"
    using sim_step_square [OF sqs, of gauss steps eps k] by metis
  have run': "run_steps (sim_step gauss n steps eps) [0..<Suc k] (init_state M_base) = Inr s'"
    by (simp add: run_steps_append run st)
  have snaps': "\<forall>sn \<in> set (st_snapshots s'). coherence_matrix n (snap_M sn)"
  proof
    fix sn assume "sn \<in> set (st_snapshots s')"
    with sn' have "sn \<in> set (st_snapshots s) \<or> snap_M sn = ?M'" by auto
    then show "coherence_matrix n (snap_M sn)"
      using snaps coh by auto
  qed
  have events': "st_events s' = expected_events (st_history s')"
  proof (cases "prev_components s")
    case None
    with prev have "k = 0" by simp
    with len have "st_history s = []" by simp
    with None evs show ?thesis
      by (simp add: ev' hist detect_events_None expected_events_Nil expected_events_single)
  next
    case (Some cs0)
    with prev have k: "0 < k" and l: "length cs0 = last (st_history s)" by simp_all
    from k len have ne: "st_history s \<noteq> []" by auto
    show ?thesis
      unfolding hist expected_events_snoc [OF ne] ev' Some detect_events_Some evs l len ..
  qed
  have "square_mat n (M_t s')" "0 < Suc k \<longrightarrow> coherence_matrix n (M_t s')"
    using coh by (simp_all add: M' coherence_matrix_square)
  moreover have "length (st_history s') = Suc k"
    by (simp add: hist len)
  moreover have "case prev_components s' of None \<Rightarrow> Suc k = 0
                | Some cs \<Rightarrow> 0 < Suc k \<and> length cs = last (st_history s')"
    by (simp add: pc hist)
  ultimately show ?case
    using run' snaps' events' by (intro exI [of _ s'] conjI)
qed

lemma simulate_dynamic_graph_run:
  assumes "0 \<le> seed + 100"
    and "run_steps (sim_step (normal (seed + 100)) (length M_base) steps eps) [0..<nat steps]
           (init_state M_base) = Inr s"
  shows "simulate_dynamic_graph normal M_base steps eps seed =
    Inr \<lparr>snapshots = st_snapshots s, n_components_history = st_history s,
         events = st_events s, n_steps = steps\<rparr>"
  using assms by (simp add: simulate_dynamic_graph_def)

lemma set_expected_events:
  "(t, kind, d) \<in> set (expected_events h) \<longleftrightarrow>
     0 < t \<and> t < length h \<and>
     (kind = FUSION \<and> h ! t < h ! (t - 1) \<or> kind = FISSION \<and> h ! t > h ! (t - 1)) \<and>
     d = show_nat (h ! (t - 1)) @ ''->'' @ show_nat (h ! t)"
  unfolding expected_events_def event_between_def
  by (auto split: if_splits)

text \<open>
  C6. From a matrix that satisfies the invariant of a coherence matrix, the transition of
  \<open>simulate_dynamic_graph\<close> (symmetric zero-diagonal noise and drift added, every entry
  clipped to [0, 1], the diagonal set to 1, then the mean with the transpose) gives a
  matrix that satisfies it again: symmetric, ones on the diagonal, every entry in [0, 1].
  So does the matrix after any number of steps of the run, and every matrix saved in a
  snapshot.
\<close>

theorem evolved_matrix_invariant:
  assumes coh: "coherence_matrix n M_base"
  shows "coherence_matrix n (fst (evolve gauss n (M_base, pos))) \<and>
     (\<forall>k. \<exists>s. run_steps (sim_step gauss n steps eps) [0..<k] (init_state M_base) = Inr s \<and>
        coherence_matrix n (M_t s)) \<and>
     (0 \<le> seed + 100 \<longrightarrow>
        (\<exists>r. simulate_dynamic_graph normal M_base steps eps seed = Inr r \<and>
           (\<forall>sn \<in> set (snapshots r). coherence_matrix n (snap_M sn))))"
proof (intro conjI allI impI)
  have sq: "square_mat n M_base"
    by (rule coherence_matrix_square [OF coh])
  show "coherence_matrix n (fst (evolve gauss n (M_base, pos)))"
    by (rule evolve_coherent [OF sq])
  show "\<exists>s. run_steps (sim_step gauss n steps eps) [0..<k] (init_state M_base) = Inr s \<and>
        coherence_matrix n (M_t s)" for k
  proof (cases k)
    case 0
    then show ?thesis using coh by (simp add: init_state_def)
  next
    case (Suc k')
    from run_steps_upt [OF sq, of gauss steps eps k] obtain s where
      "run_steps (sim_step gauss n steps eps) [0..<k] (init_state M_base) = Inr s"
      "0 < k \<longrightarrow> coherence_matrix n (M_t s)"
      by (elim exE conjE) (rule that, assumption+)
    then show ?thesis using Suc by auto
  qed
  assume seed: "0 \<le> seed + 100"
  have len: "length M_base = n" by (rule square_matD(1) [OF sq])
  from run_steps_upt [OF sq, of "normal (seed + 100)" steps eps "nat steps"] obtain s where
    run: "run_steps (sim_step (normal (seed + 100)) n steps eps) [0..<nat steps] (init_state M_base) = Inr s"
    and snaps: "\<forall>sn \<in> set (st_snapshots s). coherence_matrix n (snap_M sn)"
    by (elim exE conjE) (rule that, assumption+)
  from simulate_dynamic_graph_run [OF seed, of normal M_base steps eps s] run len snaps
  show "\<exists>r. simulate_dynamic_graph normal M_base steps eps seed = Inr r \<and>
           (\<forall>sn \<in> set (snapshots r). coherence_matrix n (snap_M sn))"
    by simp
qed

text \<open>
  C7. A run of \<open>simulate_dynamic_graph\<close> on an n x n matrix returns one component count
  per step, and its event log is exactly the one the counts determine: an event stands at
  step \<open>t\<close> exactly when \<open>t\<close> is not the first step and the count differs from the one of
  step \<open>t - 1\<close>, a FUSION when it is smaller and a FISSION when it is greater, with the two
  counts as its detail; equal counts and the first step give no event.
\<close>

theorem events_follow_counts:
  assumes sq: "square_mat n M_base" and seed: "0 \<le> seed + 100"
  shows "\<exists>r. simulate_dynamic_graph normal M_base steps eps seed = Inr r \<and>
     length (n_components_history r) = nat steps \<and>
     events r = expected_events (n_components_history r) \<and>
     (\<forall>t kind d. (t, kind, d) \<in> set (events r) \<longleftrightarrow>
        0 < t \<and> t < nat steps \<and>
        (kind = FUSION \<and> n_components_history r ! t < n_components_history r ! (t - 1) \<or>
         kind = FISSION \<and> n_components_history r ! t > n_components_history r ! (t - 1)) \<and>
        d = show_nat (n_components_history r ! (t - 1)) @ ''->'' @ show_nat (n_components_history r ! t))"
proof -
  have len: "length M_base = n" by (rule square_matD(1) [OF sq])
  from run_steps_upt [OF sq, of "normal (seed + 100)" steps eps "nat steps"] obtain s where
    run: "run_steps (sim_step (normal (seed + 100)) n steps eps) [0..<nat steps] (init_state M_base) = Inr s"
    and hl: "length (st_history s) = nat steps"
    and ev: "st_events s = expected_events (st_history s)"
    by (elim exE conjE) (rule that, assumption+)
  let ?r = "\<lparr>snapshots = st_snapshots s, n_components_history = st_history s,
         events = st_events s, n_steps = steps\<rparr>"
  have res: "simulate_dynamic_graph normal M_base steps eps seed = Inr ?r"
    using simulate_dynamic_graph_run [OF seed, of normal M_base steps eps s] run len by simp
  have mem: "(t, kind, d) \<in> set (st_events s) \<longleftrightarrow>
        0 < t \<and> t < nat steps \<and>
        (kind = FUSION \<and> st_history s ! t < st_history s ! (t - 1) \<or>
         kind = FISSION \<and> st_history s ! t > st_history s ! (t - 1)) \<and>
        d = show_nat (st_history s ! (t - 1)) @ ''->'' @ show_nat (st_history s ! t)" for t kind d
    unfolding ev set_expected_events hl ..
  show ?thesis
  proof (intro exI [of _ ?r] conjI)
    show "simulate_dynamic_graph normal M_base steps eps seed = Inr ?r" by (rule res)
    show "length (n_components_history ?r) = nat steps" using hl by simp
    show "events ?r = expected_events (n_components_history ?r)" using ev by simp
    show "\<forall>t kind d. (t, kind, d) \<in> set (events ?r) \<longleftrightarrow>
        0 < t \<and> t < nat steps \<and>
        (kind = FUSION \<and> n_components_history ?r ! t < n_components_history ?r ! (t - 1) \<or>
         kind = FISSION \<and> n_components_history ?r ! t > n_components_history ?r ! (t - 1)) \<and>
        d = show_nat (n_components_history ?r ! (t - 1)) @ ''->'' @ show_nat (n_components_history ?r ! t)"
      using mem by simp
  qed
qed

theorem evolved_matrix_invariant_witness:
  "coherence_matrix 2 [[1, 1/2], [1/2, 1]] \<and>
   fst (evolve (\<lambda>k. if k mod 16 < 8 then -1 else 1) 2 ([[1, 1/2], [1/2, 1]], 0))
     = [[1, 23/50], [23/50, 1]] \<and>
   coherence_matrix 2 (fst (evolve (\<lambda>k. if k mod 16 < 8 then -1 else 1) 2 ([[1, 1/2], [1/2, 1]], 0)))"
proof -
  let ?M = "[[1, 1/2], [1/2, 1::real]]"
  let ?g = "\<lambda>k::nat. if k mod 16 < 8 then -1 else 1 :: real"
  have coh: "coherence_matrix 2 ?M"
    by code_simp
  have ev: "fst (evolve ?g 2 (?M, 0)) = [[1, 23/50], [23/50, 1]]"
    by code_simp
  from evolved_matrix_invariant [OF coh, of ?g 0]
  have "coherence_matrix 2 (fst (evolve ?g 2 (?M, 0)))"
    by (rule conjunct1)
  with coh ev show ?thesis by (intro conjI)
qed

theorem events_follow_counts_witness:
  "square_mat 2 [[1, 1/2], [1/2, 1]] \<and> (0::int) \<le> 42 + 100 \<and>
   n_components_history (projr (simulate_dynamic_graph
      (\<lambda>s k. if k mod 16 < 8 then -1 else 1) [[1, 1/2], [1/2, 1]] 2 (1/2) 42)) = [2, 1] \<and>
   events (projr (simulate_dynamic_graph
      (\<lambda>s k. if k mod 16 < 8 then -1 else 1) [[1, 1/2], [1/2, 1]] 2 (1/2) 42))
     = [(1, FUSION, ''2->1'')]"
proof -
  let ?M = "[[1, 1/2], [1/2, 1::real]]"
  let ?g = "\<lambda>(s::int) (k::nat). if k mod 16 < 8 then -1 else 1 :: real"
  have sq: "square_mat 2 ?M"
    by (simp add: square_mat_def)
  have seed: "(0::int) \<le> 42 + 100" by simp
  have h: "n_components_history (projr (simulate_dynamic_graph ?g ?M 2 (1/2) 42)) = [2, 1]"
    by code_simp
  have ee: "expected_events [2, 1] = [(1, FUSION, ''2->1'')]"
    by code_simp
  from events_follow_counts [OF sq seed, of ?g 2 "1/2"] obtain r where
    "simulate_dynamic_graph ?g ?M 2 (1/2) 42 = Inr r"
    "events r = expected_events (n_components_history r)"
    by (elim exE conjE) (rule that, assumption+)
  then have "events (projr (simulate_dynamic_graph ?g ?M 2 (1/2) 42))
     = expected_events (n_components_history (projr (simulate_dynamic_graph ?g ?M 2 (1/2) 42)))"
    by simp
  then have e: "events (projr (simulate_dynamic_graph ?g ?M 2 (1/2) 42)) = [(1, FUSION, ''2->1'')]"
    by (simp only: h ee)
  from sq seed h e show ?thesis by (intro conjI)
qed

section \<open>The spectrum\<close>

text \<open>
  What \<open>compute_laplacian\<close> returns for any eigenvalue solver: the solver's values for
  the Laplacian \<open>D - W\<close>, sorted ascending; as \<open>n_zeros\<close> the number of them whose absolute
  value is below 1e-8; as Fiedler value the second entry of the sorted list when the graph
  has more than one node, and 0 otherwise.
\<close>

lemma compute_laplacian_returns:
  "(\<forall>r. compute_laplacian eigvalsh G = Inr r \<longrightarrow>
      sorted (eigenvalues r) \<and>
      n_zeros r = length (filter (\<lambda>x. \<bar>x\<bar> < 1 / 10 ^ 8) (eigenvalues r)) \<and>
      (number_of_nodes G = 0 \<longrightarrow> eigenvalues r = [] \<and> n_zeros r = 0) \<and>
      (0 < number_of_nodes G \<longrightarrow>
         (\<exists>es. eigvalsh (laplacian_matrix G) = Some es \<and> eigenvalues r = sort es) \<and>
         laplacian r = Some (laplacian_matrix G)) \<and>
      (1 < number_of_nodes G \<longrightarrow>
         1 < length (eigenvalues r) \<and> fiedler r = eigenvalues r ! 1 \<and>
         eigenvalues r ! 0 \<le> fiedler r \<and>
         (\<forall>k. 1 \<le> k \<and> k < length (eigenvalues r) \<longrightarrow> fiedler r \<le> eigenvalues r ! k)) \<and>
      (number_of_nodes G \<le> 1 \<longrightarrow> fiedler r = 0)) \<and>
   (\<forall>es. eigvalsh (laplacian_matrix G) = Some es \<and> length es = number_of_nodes G \<longrightarrow>
      (\<exists>r. compute_laplacian eigvalsh G = Inr r))"
proof (intro conjI allI impI)
  fix r assume ret: "compute_laplacian eigvalsh G = Inr r"
  show "sorted (eigenvalues r)"
    using ret by (auto simp: compute_laplacian_def Let_def split: if_splits option.splits)
  show "n_zeros r = length (filter (\<lambda>x. \<bar>x\<bar> < 1 / 10 ^ 8) (eigenvalues r))"
    using ret by (auto simp: compute_laplacian_def Let_def split: if_splits option.splits)
  show "eigenvalues r = []" "n_zeros r = 0" if "number_of_nodes G = 0"
    using ret that by (auto simp: compute_laplacian_def Let_def)
  show "\<exists>es. eigvalsh (laplacian_matrix G) = Some es \<and> eigenvalues r = sort es"
    and "laplacian r = Some (laplacian_matrix G)" if "0 < number_of_nodes G"
    using ret that by (auto simp: compute_laplacian_def Let_def split: if_splits option.splits)
  show "fiedler r = 0" if "number_of_nodes G \<le> 1"
    using ret that by (auto simp: compute_laplacian_def Let_def split: if_splits option.splits)
  assume n: "1 < number_of_nodes G"
  show len: "1 < length (eigenvalues r)" and f: "fiedler r = eigenvalues r ! 1"
    using ret n by (auto simp: compute_laplacian_def Let_def split: if_splits option.splits)
  have srt: "sorted (eigenvalues r)"
    using ret by (auto simp: compute_laplacian_def Let_def split: if_splits option.splits)
  show "eigenvalues r ! 0 \<le> fiedler r"
    unfolding f using srt len by (simp add: sorted_nth_mono)
  show "fiedler r \<le> eigenvalues r ! k" if "1 \<le> k \<and> k < length (eigenvalues r)" for k
    unfolding f using srt that by (simp add: sorted_nth_mono)
next
  fix es assume "eigvalsh (laplacian_matrix G) = Some es \<and> length es = number_of_nodes G"
  then show "\<exists>r. compute_laplacian eigvalsh G = Inr r"
    by (auto simp: compute_laplacian_def Let_def)
qed

text \<open>
  C4. The source takes \<open>n_zeros\<close> for the number of connected components (the comment
  at the count, and the report that prints it as the number of realities). It is not: the
  tolerance 1e-8 is absolute. The matrix with off-diagonal entry 1e-9 induces, at threshold
  0, a connected graph on two nodes. Its Laplacian has the eigenvalues 0 (eigenvector
  (1, 1)) and 2e-9 (eigenvector (1, -1)), both below the tolerance, so \<open>n_zeros\<close> is 2
  while there is one component.
\<close>

theorem compute_laplacian_tiny_weight:
  "laplacian_matrix (projr (build_graph [[1, 1 / 10 ^ 9], [1 / 10 ^ 9, 1]] 0)) =
     [[1 / 10 ^ 9, - (1 / 10 ^ 9)], [- (1 / 10 ^ 9), 1 / 10 ^ 9]] \<and>
   eigenpair [[1 / 10 ^ 9, - (1 / 10 ^ 9)], [- (1 / 10 ^ 9), 1 / 10 ^ 9]] 0 [1, 1] \<and>
   eigenpair [[1 / 10 ^ 9, - (1 / 10 ^ 9)], [- (1 / 10 ^ 9), 1 / 10 ^ 9]] (2 / 10 ^ 9) [1, - 1] \<and>
   n_zeros (projr (compute_laplacian (\<lambda>L. Some [0, 2 / 10 ^ 9])
     (projr (build_graph [[1, 1 / 10 ^ 9], [1 / 10 ^ 9, 1]] 0)))) = 2 \<and>
   length (connected_components (projr (build_graph [[1, 1 / 10 ^ 9], [1 / 10 ^ 9, 1]] 0))) = 1"
  by code_simp

text \<open>
  C10. The result of \<open>check_small_world\<close> does not depend on its \<open>n_nodes\<close> argument.
\<close>

theorem check_small_world_ignores_n_nodes:
  "check_small_world average_clustering average_shortest_path_length G n1 =
   check_small_world average_clustering average_shortest_path_length G n2"
  by (simp add: check_small_world_def)

section \<open>Parameters outside their range\<close>

text \<open>
  C8 (amended). The operations do not validate their parameters. \<open>build_graph\<close> returns
  a graph for every threshold, inside [0, 1] or not. \<open>create_coherence_matrix\<close> accepts
  the entity count 0 and returns the empty matrix. \<open>simulate_dynamic_graph\<close> with a
  negative step count runs no step and returns an empty trace. A ValueError arises only
  where a negative count reaches numpy: a negative entity count in \<^verbatim>\<open>rng.random\<close> and
  a negative step count in \<^verbatim>\<open>np.linspace\<close> of \<open>percolation_curve\<close>.
\<close>

theorem no_parameter_validation:
  assumes sq: "square_mat n M"
  shows "(\<exists>G. build_graph M eps = Inr G \<and> nodes G = [0..<n]) \<and>
     (0 \<le> seed \<longrightarrow> create_coherence_matrix uniform 0 seed = Inr []) \<and>
     (steps < 0 \<and> 0 \<le> seed + 100 \<longrightarrow>
        simulate_dynamic_graph normal M steps eps seed =
          Inr \<lparr>snapshots = [], n_components_history = [], events = [], n_steps = steps\<rparr>) \<and>
     (k < 0 \<longrightarrow> create_coherence_matrix uniform k seed = Inl ValueError) \<and>
     (steps < 0 \<longrightarrow> percolation_curve fl eigvalsh M steps = Inl ValueError)"
proof (intro conjI impI)
  show "\<exists>G. build_graph M eps = Inr G \<and> nodes G = [0..<n]"
    using build_graph_effective [OF sq, of eps] square_matD(1) [OF sq]
    by (simp add: effective_graph_def)
  show "create_coherence_matrix uniform 0 seed = Inr []" if "0 \<le> seed"
    using that
    by (simp add: create_coherence_matrix_def rng_random_def mat_of_def mat_add_def
        mat_half_def mat_T_def fill_diagonal_def)
  show "simulate_dynamic_graph normal M steps eps seed =
          Inr \<lparr>snapshots = [], n_components_history = [], events = [], n_steps = steps\<rparr>"
    if "steps < 0 \<and> 0 \<le> seed + 100"
    using that by (simp add: simulate_dynamic_graph_def init_state_def)
  show "create_coherence_matrix uniform k seed = Inl ValueError" if "k < 0"
    using that by (simp add: create_coherence_matrix_def)
  show "percolation_curve fl eigvalsh M steps = Inl ValueError" if "steps < 0"
    using that by (simp add: percolation_curve_def linspace_negative)
qed

theorem no_parameter_validation_witness:
  "square_mat 2 [[1, 1/2], [1/2, 1]] \<and>
   \<not> isl (build_graph [[1, 1/2], [1/2, 1]] (3/2)) \<and>
   create_coherence_matrix (\<lambda>s k. 0) 0 42 = Inr [] \<and>
   simulate_dynamic_graph (\<lambda>s k. 0) [[1, 1/2], [1/2, 1]] (- 1) (3/2) 42 =
     Inr \<lparr>snapshots = [], n_components_history = [], events = [], n_steps = - 1\<rparr> \<and>
   create_coherence_matrix (\<lambda>s k. 0) (- 1) 42 = Inl ValueError \<and>
   percolation_curve (\<lambda>x. x) (\<lambda>L. None) [[1, 1/2], [1/2, 1]] (- 1) = Inl ValueError"
proof -
  let ?M = "[[1, 1/2], [1/2, 1::real]]"
  have sq: "square_mat 2 ?M"
    by (simp add: square_mat_def)
  from no_parameter_validation [OF sq, of "3/2" 42 "\<lambda>s k. 0" "- 1" "\<lambda>s k. 0" "- 1" "\<lambda>x. x" "\<lambda>L. None"] sq
  show ?thesis by auto
qed

text \<open>
  The claim as first stated fails: a threshold of 1.5 is accepted and gives a graph
  without edges, the entity count 0 gives the empty matrix, and a step count of -1 gives
  an empty trace; none is rejected.
\<close>

theorem invalid_parameters_accepted_counterexample:
  "\<not> isl (build_graph [[1, 1/2], [1/2, 1]] (3/2)) \<and>
   number_of_edges (projr (build_graph [[1, 1/2], [1/2, 1]] (3/2))) = 0 \<and>
   \<not> isl (build_graph [[1, 1/2], [1/2, 1]] (- 1)) \<and>
   create_coherence_matrix (\<lambda>s k. 0) 0 42 = Inr [] \<and>
   simulate_dynamic_graph (\<lambda>s k. 0) [[1, 1/2], [1/2, 1]] (- 1) (1/2) 42 =
     Inr \<lparr>snapshots = [], n_components_history = [], events = [], n_steps = - 1\<rparr>"
proof -
  have a: "\<not> isl (build_graph [[1, 1/2], [1/2, 1]] (3/2))"
    "number_of_edges (projr (build_graph [[1, 1/2], [1/2, 1]] (3/2))) = 0"
    "\<not> isl (build_graph [[1, 1/2], [1/2, 1]] (- 1))"
    "create_coherence_matrix (\<lambda>s k. 0) 0 42 = Inr []"
    by code_simp+
  have b: "simulate_dynamic_graph (\<lambda>s k. 0) [[1, 1/2], [1/2, 1]] (- 1) (1/2) 42 =
     Inr \<lparr>snapshots = [], n_components_history = [], events = [], n_steps = - 1\<rparr>"
    by (simp add: simulate_dynamic_graph_def init_state_def)
  from a b show ?thesis by (intro conjI)
qed

section \<open>The small-world coefficient\<close>

text \<open>
  Outside the degenerate cases the coefficient is \<open>(C / C_random) / (L / L_random)\<close> with
  \<open>C_random = 2 m / (n (n - 1))\<close> and \<open>L_random = ln (giant size) / ln 2\<close>: the divisor is
  \<open>ln 2\<close> for every graph, since the key \<open>avg_degree\<close> is never in the result dictionary.
  The graph is declared small-world exactly when the coefficient exceeds 1. In the
  degenerate cases the result is sigma 0 and not small-world.
\<close>

lemma check_small_world_sigma:
  fixes average_clustering :: "graph \<Rightarrow> real"
    and average_shortest_path_length :: "graph \<Rightarrow> error + real"
  assumes m: "number_of_edges G = m" "0 < m"
    and n: "number_of_nodes G = n" "4 \<le> n"
    and giant: "max_by_len (connected_components G) = Inr giant_nodes" "4 \<le> length giant_nodes"
    and L: "average_shortest_path_length (subgraph G giant_nodes) = Inr L_actual" "0 < L_actual"
    and C_random: "C_random = 2 * real m / real (n * (n - 1))"
    and L_random: "L_random = ln (real (length giant_nodes)) / ln 2"
    and sigma: "sigma = (average_clustering G / C_random) / max (L_actual / L_random) (1 / 100)"
  shows "check_small_world average_clustering average_shortest_path_length G n_nodes =
    Inr ([''is_small_world'' \<mapsto> PyBool False, ''sigma'' \<mapsto> PyNum 0]
          (''sigma'' \<mapsto> PyNum sigma, ''is_small_world'' \<mapsto> PyBool (sigma > 1),
           ''C_ratio'' \<mapsto> PyNum (average_clustering G / C_random),
           ''L_ratio'' \<mapsto> PyNum (L_actual / L_random)))"
proof -
  let ?result = "[''is_small_world'' \<mapsto> PyBool False, ''sigma'' \<mapsto> PyNum 0]"
  define Lr where "Lr = ln (real (length giant_nodes)) / ln (max 2 (get_num ?result ''avg_degree'' 2))"
  define lam where "lam = L_actual / max (if Lr = 0 then 1 else Lr) (1 / 100)"
  define gam where "gam = average_clustering G / (if 1 < n then 2 * real m / real (n * (n - 1)) else 0)"
  have g: "get_num ?result ''avg_degree'' 2 = 2"
    by (simp add: get_num_def)
  have "(4::real) \<le> real (length giant_nodes)"
    using giant(2) by simp
  then have l4: "ln 4 \<le> ln (real (length giant_nodes))"
    by (intro ln_mono) simp_all
  have "ln (4::real) = 2 * ln 2"
    using ln_realpow [of 2 2] by simp
  moreover have "0 < ln (2::real)" by simp
  ultimately have Lr: "2 \<le> L_random"
    using l4 by (simp add: L_random field_simps)
  have LrL: "Lr = L_random"
    by (simp add: Lr_def L_random g)
  have lam: "lam = L_actual / L_random"
    using Lr by (simp add: lam_def LrL)
  have n1: "1 < n" using n(2) by simp
  have gam: "gam = average_clustering G / C_random"
    using n1 by (simp add: gam_def C_random)
  have pos: "0 < 2 * real m / real (n * (n - 1))"
    using m(2) n(2) by simp
  have code: "check_small_world average_clustering average_shortest_path_length G n_nodes =
    Inr (?result(''sigma'' \<mapsto> PyNum (gam / max lam (1 / 100)),
           ''is_small_world'' \<mapsto> PyBool (gam / max lam (1 / 100) > 1),
           ''C_ratio'' \<mapsto> PyNum gam, ''L_ratio'' \<mapsto> PyNum lam))"
  proof -
    have c1: "\<not> (m = 0 \<or> n < 4)"
      using m(2) n(2) by simp
    have c2: "\<not> n < 2" using n(2) by simp
    have c3: "\<not> length giant_nodes < 4" using giant(2) by simp
    have c4: "0 < (if 1 < n then 2 * real m / real (n * (n - 1)) else 0) \<and> 0 < L_actual"
      using n1 pos L(2) by (simp only: if_True simp_thms)
    show ?thesis
      unfolding check_small_world_def Let_def
      by (simp only: c1 c2 c3 c4 if_False if_True simp_thms giant(1) L(1) sum.case
          lam_def [symmetric, unfolded Lr_def] gam_def [symmetric] m(1) n(1))
  qed
  show ?thesis
    unfolding code by (simp only: lam gam sigma)
qed


lemma check_small_world_degenerate:
  assumes "number_of_edges G = 0 \<or> number_of_nodes G < 4 \<or>
     (\<exists>giant_nodes. max_by_len (connected_components G) = Inr giant_nodes \<and> length giant_nodes < 4)"
  shows "check_small_world average_clustering average_shortest_path_length G n_nodes =
    Inr [''is_small_world'' \<mapsto> PyBool False, ''sigma'' \<mapsto> PyNum 0]"
  using assms by (auto simp: check_small_world_def Let_def)

text \<open>
  C9. On the complete graph on four nodes with unit weights (clustering 1, average path
  length 1, six edges, mean degree 3) the code takes \<open>ln 4 / ln 2 = 2\<close> as the path length
  of the random reference, because it reads the mean degree from the result dictionary,
  which never holds it, and falls back to 2. It returns sigma 2, where the formula with
  the mean degree, \<open>(C / C_random) / (L / (ln 4 / ln 3))\<close>, gives \<open>ln 4 / ln 3\<close>.
\<close>

theorem check_small_world_complete_graph:
  "number_of_nodes (projr (build_graph [[1, 1, 1, 1], [1, 1, 1, 1], [1, 1, 1, 1], [1, 1, 1, 1]] (1/2))) = 4 \<and>
   number_of_edges (projr (build_graph [[1, 1, 1, 1], [1, 1, 1, 1], [1, 1, 1, 1], [1, 1, 1, 1]] (1/2))) = 6 \<and>
   max_by_len (connected_components
     (projr (build_graph [[1, 1, 1, 1], [1, 1, 1, 1], [1, 1, 1, 1], [1, 1, 1, 1]] (1/2)))) = Inr [0, 1, 2, 3] \<and>
   check_small_world (\<lambda>G. 1) (\<lambda>G. Inr 1)
     (projr (build_graph [[1, 1, 1, 1], [1, 1, 1, 1], [1, 1, 1, 1], [1, 1, 1, 1]] (1/2))) 4 =
     Inr ([''is_small_world'' \<mapsto> PyBool False, ''sigma'' \<mapsto> PyNum 0]
          (''sigma'' \<mapsto> PyNum 2, ''is_small_world'' \<mapsto> PyBool True,
           ''C_ratio'' \<mapsto> PyNum 1, ''L_ratio'' \<mapsto> PyNum (1/2))) \<and>
   (1 / (2 * 6 / (4 * 3))) / (1 / (ln 4 / ln (2 * 6 / 4))) \<noteq> (2::real)"
proof -
  let ?G = "projr (build_graph [[1, 1, 1, 1], [1, 1, 1, 1], [1, 1, 1, 1], [1, 1, 1, 1::real]] (1/2))"
  have n: "number_of_nodes ?G = 4" by code_simp
  have m: "number_of_edges ?G = 6" by code_simp
  have g: "max_by_len (connected_components ?G) = Inr [0, 1, 2, 3]" by code_simp
  have ln4: "ln (4::real) = 2 * ln 2"
    using ln_realpow [of 2 2] by simp
  have L_random: "(2::real) = ln (real (length [0::nat, 1, 2, 3])) / ln 2"
    by (simp add: ln4)
  have C_random: "(1::real) = 2 * real (6::nat) / real ((4::nat) * (4 - 1))"
    by simp
  have sigma: "(2::real) = ((\<lambda>G::graph. 1) ?G / 1) / max (1 / 2) (1 / 100)"
    by simp
  have res: "check_small_world (\<lambda>G. 1) (\<lambda>G. Inr 1) ?G 4 =
     Inr ([''is_small_world'' \<mapsto> PyBool False, ''sigma'' \<mapsto> PyNum 0]
          (''sigma'' \<mapsto> PyNum 2, ''is_small_world'' \<mapsto> PyBool ((2::real) > 1),
           ''C_ratio'' \<mapsto> PyNum ((\<lambda>G::graph. 1) ?G / 1), ''L_ratio'' \<mapsto> PyNum (1 / 2)))"
    by (rule check_small_world_sigma [OF m _ n _ g _ _ _ C_random L_random sigma]) simp_all
  have "ln (9::real) = 2 * ln 3"
    using ln_realpow [of 3 2] by simp
  moreover have "ln (4::real) \<noteq> ln 9" by simp
  ultimately have claim: "(1 / (2 * 6 / (4 * 3))) / (1 / (ln 4 / ln (2 * 6 / 4))) \<noteq> (2::real)"
    by (simp add: field_simps)
  from res have res': "check_small_world (\<lambda>G. 1) (\<lambda>G. Inr 1) ?G 4 =
     Inr ([''is_small_world'' \<mapsto> PyBool False, ''sigma'' \<mapsto> PyNum 0]
          (''sigma'' \<mapsto> PyNum 2, ''is_small_world'' \<mapsto> PyBool True,
           ''C_ratio'' \<mapsto> PyNum 1, ''L_ratio'' \<mapsto> PyNum (1/2)))"
    by simp
  from n m g res' claim show ?thesis by (intro conjI)
qed

end
